theory Spec2Isabelle
  imports Main "HOL-Library.Word" "HOL-Library.Multiset" "HOL-Library.Sublist"
begin

section \<open>TCanvasPainter: data model\<close>

text \<open>
  The painter keeps one \<open>WebConn\<close> per viewer connection, a queue of \<open>WebCommand\<close>s and a
  list of \<open>WebUpdate\<close>s. Connection ids are \<open>unsigned\<close>, versions and the command counter are
  \<open>uint64_t\<close>. A \<open>CanvasCallback_t\<close> is a closure of the caller: the model keeps its identity
  (a number) and records each invocation in the log \<open>fired\<close>; \<open>None\<close> is \<open>nullptr\<close>.
  Field names are the source's; \<open>WebCommand::fConnId\<close> is \<open>cmdConnId\<close> and
  \<open>WebUpdate::fCallback\<close> is \<open>updCallback\<close>, since record fields share one name space.
\<close>

type_synonym connid = "32 word"
type_synonym version = "64 word"
type_synonym callback = nat

record WebConn =
  fConnId :: connid
  fDrawReady :: bool
  fGetMenu :: string
  fSend :: version
  fDelivered :: version

record WebCommand =
  fId :: string
  fName :: string
  fArg :: string
  fRunning :: bool
  fReady :: bool
  fResult :: bool
  fCallback :: "callback option"
  cmdConnId :: connid

record WebUpdate =
  fVersion :: version
  updCallback :: "callback option"

text \<open>What a throw or an invalid dereference of the source ends the call with.\<close>

datatype error = InvalidArgument | OutOfRange | BadFunctionCall | NullPointer

text \<open>Calls that leave the painter: the window manager, the interpreter, a drawable.\<close>

datatype extcall =
  Terminate | SetInterrupt | Execute string string | Show string | CloseConnections

text \<open>
  The state of one painter. \<open>released\<close> holds the command objects that left the queue: the
  queue stores shared pointers, and the wait predicate of \<open>DoWhenReady\<close> keeps its own
  pointer to the command, so the object with its final flags outlives the queue entry.
  \<open>fired\<close>, \<open>sent\<close>, \<open>files\<close>, \<open>errors\<close> and \<open>ext\<close> log the effects in the order they happen:
  callback invocations, \<open>fWindow->Send\<close>, files written, \<open>R__ERROR_HERE\<close> lines and external
  calls. \<open>fWindow\<close> says whether the window pointer is set.
\<close>

record painter =
  fWindow :: bool
  fWebConn :: "WebConn list"
  fHadWebConn :: bool
  fCmds :: "WebCommand list"
  fCmdsCnt :: "64 word"
  fSnapshotVersion :: version
  fSnapshot :: string
  fSnapshotDelivered :: version
  fUpdatesLst :: "WebUpdate list"
  fNextDumpName :: string
  released :: "WebCommand list"
  fired :: "(callback \<times> bool) list"
  sent :: "(connid \<times> string) list"
  files :: "(string \<times> string) list"
  errors :: "string list"
  ext :: "extcall list"

text \<open>
  What the collaborators answer during one call: the window (\<open>CanSend\<close>, \<open>IsShown\<close>,
  \<open>MakeBatch\<close>, \<open>RelativeAddr\<close>), the canvas (\<open>CanvasFind\<close> says whether a drawable has the
  id, \<open>MenuJSON\<close> is the JSON of the menu it populates, \<open>ToJSON\<close> the serialised display
  list, \<open>DumpJSON\<close> what \<open>ExportToFile\<close> writes), \<open>TBase64::Decode\<close>, and the file system:
  \<open>CanOpen\<close> says whether a \<open>std::ofstream\<close> on the path opens. The source never tests its
  streams: a stream that did not open writes nothing, and the call goes on as if it had.
  A path is handed to the stream as a C string.
\<close>

record env =
  CanSend :: "connid \<Rightarrow> bool"
  IsShown :: bool
  MakeBatch :: connid
  RelativeAddr :: string
  CanvasFind :: "string \<Rightarrow> bool"
  MenuJSON :: "string \<Rightarrow> string"
  ToJSON :: string
  DumpJSON :: string
  Decode :: "string \<Rightarrow> string"
  CanOpen :: "string \<Rightarrow> bool"

definition init :: painter where
  "init = \<lparr>fWindow = False, fWebConn = [], fHadWebConn = False, fCmds = [], fCmdsCnt = 0,
     fSnapshotVersion = 0, fSnapshot = [], fSnapshotDelivered = 0, fUpdatesLst = [],
     fNextDumpName = [], released = [], fired = [], sent = [], files = [], errors = [],
     ext = []\<rparr>"

section \<open>Strings and numbers\<close>

text \<open>\<open>s.find(p) == 0\<close>: the string starts with \<open>p\<close>.\<close>

definition starts_with :: "string \<Rightarrow> string \<Rightarrow> bool" where
  "starts_with p s = (take (length p) s = p)"

text \<open>\<open>s.find(c)\<close>: the position of the first \<open>c\<close>, \<open>None\<close> for \<open>npos\<close>.\<close>

definition find_char :: "char \<Rightarrow> string \<Rightarrow> nat option" where
  "find_char c s = (if c \<in> set s then Some (length (takeWhile (\<lambda>x. x \<noteq> c) s)) else None)"

text \<open>\<open>s.c_str()\<close> read as a C string: the bytes before the first NUL.\<close>

definition c_str :: "string \<Rightarrow> string" where
  "c_str s = takeWhile (\<lambda>x. x \<noteq> CHR 0x00) s"

text \<open>\<open>std::to_string\<close> and \<open>TString::ULLtoa(v, 10)\<close>: decimal digits, no leading zero.\<close>

fun to_string :: "nat \<Rightarrow> string" where
  "to_string n =
     (if n < 10 then [char_of (48 + n)] else to_string (n div 10) @ [char_of (48 + n mod 10)])"

declare to_string.simps [simp del]

definition is_space :: "char \<Rightarrow> bool" where
  "is_space c = (of_char c = (32::nat) \<or> (9 \<le> (of_char c :: nat) \<and> (of_char c :: nat) \<le> 13))"

definition is_digit :: "char \<Rightarrow> bool" where
  "is_digit c = (48 \<le> (of_char c :: nat) \<and> (of_char c :: nat) \<le> 57)"

fun digits_value :: "int \<Rightarrow> string \<Rightarrow> int" where
  "digits_value acc [] = acc"
| "digits_value acc (c # cs) = digits_value (acc * 10 + (of_char c - 48)) cs"

text \<open>
  \<open>std::stoll\<close>: leading white space, an optional sign, then decimal digits up to the first
  other byte; no digit throws \<open>invalid_argument\<close>, a value outside \<open>long long\<close> throws
  \<open>out_of_range\<close>.
\<close>

definition stoll :: "string \<Rightarrow> error + int" where
  "stoll s =
     (let s1 = dropWhile is_space s;
          neg = (s1 \<noteq> [] \<and> hd s1 = CHR ''-'');
          s2 = (if s1 \<noteq> [] \<and> (hd s1 = CHR ''-'' \<or> hd s1 = CHR ''+'') then tl s1 else s1);
          ds = takeWhile is_digit s2;
          v = (if neg then - digits_value 0 ds else digits_value 0 ds)
      in if ds = [] then Inl InvalidArgument
         else if v < - (2 ^ 63) \<or> 2 ^ 63 - 1 < v then Inl OutOfRange
         else Inr v)"

section \<open>Callbacks and cancellation\<close>

text \<open>\<open>if (callback) callback(res)\<close>: the invocations it adds to the log.\<close>

definition invoke :: "callback option \<Rightarrow> bool \<Rightarrow> (callback \<times> bool) list" where
  "invoke cb res = (case cb of None \<Rightarrow> [] | Some f \<Rightarrow> [(f, res)])"

text \<open>
  \<open>CancelUpdates\<close> calls \<open>fCallback(false)\<close> without the null test of
  \<open>WebUpdate::CallBack\<close>: an empty \<open>std::function\<close> throws \<open>bad_function_call\<close>.
\<close>

fun CancelUpdates_loop ::
  "WebUpdate list \<Rightarrow> (callback \<times> bool) list \<Rightarrow> error + (callback \<times> bool) list" where
  "CancelUpdates_loop [] fr = Inr fr"
| "CancelUpdates_loop (u # rest) fr =
     (case updCallback u of
        None \<Rightarrow> Inl BadFunctionCall
      | Some f \<Rightarrow> CancelUpdates_loop rest (fr @ [(f, False)]))"

definition CancelUpdates :: "painter \<Rightarrow> error + painter" where
  "CancelUpdates s =
     (case CancelUpdates_loop (fUpdatesLst s) (fired s) of
        Inl err \<Rightarrow> Inl err
      | Inr fr \<Rightarrow> Inr (s\<lparr>fSnapshotDelivered := 0, fUpdatesLst := [], fired := fr\<rparr>))"

text \<open>The command object as \<open>CancelCommands\<close> leaves it: called back, ready, not running.\<close>

definition cancelled :: "WebCommand \<Rightarrow> WebCommand" where
  "cancelled cmd = cmd\<lparr>fCallback := None, fReady := True, fRunning := False\<rparr>"

fun CancelCommands_loop ::
  "connid \<Rightarrow> WebCommand list \<Rightarrow> WebCommand list \<Rightarrow> painter \<Rightarrow> painter" where
  "CancelCommands_loop connid [] kept s = s\<lparr>fCmds := kept\<rparr>"
| "CancelCommands_loop connid (cmd # rest) kept s =
     (if connid = 0 \<or> cmdConnId cmd = connid
      then CancelCommands_loop connid rest kept
             (s\<lparr>released := released s @ [cancelled cmd],
                fired := fired s @ invoke (fCallback cmd) False\<rparr>)
      else CancelCommands_loop connid rest (kept @ [cmd]) s)"

definition CancelCommands :: "connid \<Rightarrow> painter \<Rightarrow> painter" where
  "CancelCommands connid s = CancelCommands_loop connid (fCmds s) [] s"

section \<open>The push pass\<close>

text \<open>
  \<open>FindDrawable\<close> cuts the id at the first \<open>#\<close> and asks the canvas; the result is the id
  the drawable was found under.
\<close>

definition FindDrawable :: "env \<Rightarrow> string \<Rightarrow> string option" where
  "FindDrawable e ident =
     (let search = takeWhile (\<lambda>x. x \<noteq> CHR ''#'') ident
      in if CanvasFind e search then Some search else None)"

text \<open>The test of the first branch: the connection has drawn and the queue head may run on it.\<close>

definition head_eligible :: "WebConn \<Rightarrow> WebCommand list \<Rightarrow> bool" where
  "head_eligible conn cmds =
     (fDrawReady conn \<and> cmds \<noteq> [] \<and> fRunning (hd cmds) = False \<and>
      (cmdConnId (hd cmds) = 0 \<or> cmdConnId (hd cmds) = fConnId conn))"

text \<open>
  The loop body for a connection that can be sent to: one of the three payloads, or none.
  A menu request for an id with no drawable is dropped without a payload. The buffer goes
  to \<open>fWindow->Send\<close> as \<open>buf.Data()\<close>, a C string: the payload ends at the first NUL.
\<close>

definition push_one :: "env \<Rightarrow> WebConn \<Rightarrow> painter \<Rightarrow> WebConn \<times> painter" where
  "push_one e conn s =
     (if head_eligible conn (fCmds s) then
        (let cmd = (hd (fCmds s))\<lparr>fRunning := True, cmdConnId := fConnId conn\<rparr>
         in (conn, s\<lparr>fCmds := cmd # tl (fCmds s),
                      sent := sent s @
                        [(fConnId conn, c_str (''CMD:'' @ fId cmd @ '':'' @ fName cmd))]\<rparr>))
      else if fGetMenu conn \<noteq> [] then
        (conn\<lparr>fGetMenu := []\<rparr>,
         case FindDrawable e (fGetMenu conn) of
           None \<Rightarrow> s
         | Some d \<Rightarrow>
             s\<lparr>sent := sent s @
                 [(fConnId conn, c_str (''MENU:'' @ fGetMenu conn @ '':'' @ MenuJSON e d))]\<rparr>)
      else if fSend conn \<noteq> fSnapshotVersion s then
        (conn\<lparr>fSend := fSnapshotVersion s\<rparr>,
         s\<lparr>sent := sent s @ [(fConnId conn,
              c_str (''SNAP:'' @ to_string (unat (fSnapshotVersion s)) @ '':'' @ fSnapshot s))]\<rparr>)
      else (conn, s))"

text \<open>
  The \<open>for\<close> loop over \<open>fWebConn\<close>: \<open>seen\<close> are the connections already visited, \<open>md\<close> is
  \<open>min_delivered\<close>. The comparison is the source's: a delivered version replaces
  \<open>min_delivered\<close> when \<open>min_delivered\<close> is zero or smaller than it.
\<close>

fun send_loop ::
  "env \<Rightarrow> WebConn list \<Rightarrow> WebConn list \<Rightarrow> version \<Rightarrow> painter \<Rightarrow>
     WebConn list \<times> version \<times> painter" where
  "send_loop e [] seen md s = (seen, md, s)"
| "send_loop e (conn # rest) seen md s =
     (let md' = (if fDelivered conn \<noteq> 0 \<and> (md = 0 \<or> md < fDelivered conn)
                 then fDelivered conn else md)
      in if CanSend e (fConnId conn)
         then send_loop e rest (seen @ [fst (push_one e conn s)]) md' (snd (push_one e conn s))
         else send_loop e rest (seen @ [conn]) md' s)"

text \<open>The loop that completes the updates up to the delivered version.\<close>

fun deliver_loop ::
  "version \<Rightarrow> WebUpdate list \<Rightarrow> WebUpdate list \<Rightarrow> (callback \<times> bool) list \<Rightarrow>
     WebUpdate list \<times> (callback \<times> bool) list" where
  "deliver_loop v [] kept fr = (kept, fr)"
| "deliver_loop v (u # rest) kept fr =
     (if fVersion u \<le> v
      then deliver_loop v rest kept (fr @ invoke (updCallback u) True)
      else deliver_loop v rest (kept @ [u]) fr)"

text \<open>
  \<open>CheckDataToSend\<close>. The loop body dereferences \<open>fWindow\<close>, so with a connection and no
  window the call faults.
\<close>

definition CheckDataToSend :: "env \<Rightarrow> painter \<Rightarrow> error + painter" where
  "CheckDataToSend e s =
     (if fWebConn s \<noteq> [] \<and> fWindow s = False then Inl NullPointer
      else
        (case send_loop e (fWebConn s) [] 0 s of
           (conns, min_delivered, s1) \<Rightarrow>
             if conns = [] \<and> fSnapshotDelivered s1 \<noteq> 0
             then CancelUpdates (s1\<lparr>fWebConn := conns\<rparr>)
             else if fSnapshotDelivered s1 \<noteq> min_delivered then
               (case deliver_loop min_delivered (fUpdatesLst s1) [] (fired s1) of
                  (kept, fr) \<Rightarrow>
                    Inr (s1\<lparr>fWebConn := conns, fSnapshotDelivered := min_delivered,
                            fUpdatesLst := kept, fired := fr\<rparr>))
             else Inr (s1\<lparr>fWebConn := conns\<rparr>)))"

section \<open>Requests of the caller\<close>

text \<open>
  What a \<open>std::ofstream\<close> opened on \<open>path\<close> and written to once leaves in the file log: the
  content under the C string of the path, or nothing when the path cannot be opened.
\<close>

definition written :: "env \<Rightarrow> string \<Rightarrow> string \<Rightarrow> (string \<times> string) list" where
  "written e path content = (if CanOpen e (c_str path) then [(c_str path, content)] else [])"

text \<open>
  \<open>CreateSnapshot\<close> returns the JSON of the display list; a pending dump name makes it
  export the list to that file and clears the name.
\<close>

definition CreateSnapshot :: "env \<Rightarrow> painter \<Rightarrow> string \<times> painter" where
  "CreateSnapshot e s =
     (ToJSON e,
      if fNextDumpName s \<noteq> []
      then s\<lparr>files := files s @ written e (fNextDumpName s) (DumpJSON e), fNextDumpName := []\<rparr>
      else s)"

text \<open>
  \<open>CanvasUpdated\<close>, from the version test on. \<open>fWindow->Sync()\<close> before it lets the window
  hand queued messages to \<open>ProcessData\<close>: those are steps of their own. With \<open>async\<close> false
  the call then waits in \<open>fWindow->WaitFor\<close>, which keeps serving messages and polls
  \<open>CheckDeliveredVersion\<close>; the wait changes no field itself, so \<open>async\<close> does not show in
  the state.
\<close>

definition CanvasUpdated ::
  "env \<Rightarrow> version \<Rightarrow> bool \<Rightarrow> callback option \<Rightarrow> painter \<Rightarrow> error + painter" where
  "CanvasUpdated e ver async cb s =
     (if ver \<noteq> 0 \<and> fSnapshotDelivered s \<noteq> 0 \<and> ver \<le> fSnapshotDelivered s
      then Inr (s\<lparr>fired := fired s @ invoke cb True\<rparr>)
      else
        (let s1 = snd (CreateSnapshot e (s\<lparr>fSnapshotVersion := ver\<rparr>));
             s2 = s1\<lparr>fSnapshot := fst (CreateSnapshot e (s\<lparr>fSnapshotVersion := ver\<rparr>))\<rparr>
         in if fWindow s2 \<and> IsShown e then
              (case CheckDataToSend e s2 of
                 Inl err \<Rightarrow> Inl err
               | Inr s3 \<Rightarrow>
                   Inr (case cb of
                          None \<Rightarrow> s3
                        | Some f \<Rightarrow>
                            s3\<lparr>fUpdatesLst := fUpdatesLst s3 @
                                 [\<lparr>fVersion = ver, updCallback = Some f\<rparr>]\<rparr>))
            else Inr (s2\<lparr>fired := fired s2 @ invoke cb False\<rparr>)))"

text \<open>The predicate the blocking update polls: -1 failed, 1 delivered, 0 still waiting.\<close>

definition CheckDeliveredVersion :: "version \<Rightarrow> painter \<Rightarrow> int" where
  "CheckDeliveredVersion ver s =
     (if fWebConn s = [] \<and> fHadWebConn s then - 1
      else if ver \<le> fSnapshotDelivered s then 1
      else 0)"

definition CreateWindow :: "painter \<Rightarrow> painter" where
  "CreateWindow s = (if fWindow s then s else s\<lparr>fWindow := True\<rparr>)"

definition NewDisplay :: "string \<Rightarrow> painter \<Rightarrow> painter" where
  "NewDisplay wher s = (CreateWindow s)\<lparr>ext := ext (CreateWindow s) @ [Show wher]\<rparr>"

text \<open>
  \<open>DoWhenReady\<close> up to the push pass that follows the submission. The name \<open>JSON\<close> only
  stores the dump name and never calls back. Not \<open>async\<close>, the call then waits on the
  predicate \<open>command_wait\<close>, and \<open>DoWhenReady_waited\<close> reports a result that is not positive.
\<close>

definition DoWhenReady ::
  "env \<Rightarrow> string \<Rightarrow> string \<Rightarrow> bool \<Rightarrow> callback option \<Rightarrow> painter \<Rightarrow> error + painter" where
  "DoWhenReady e name arg async cb s =
     (if name = ''JSON'' then Inr (s\<lparr>fNextDumpName := arg\<rparr>)
      else
        (let s1 = CreateWindow s; connid = MakeBatch e
         in if connid = 0 then Inr (s1\<lparr>fired := fired s1 @ invoke cb False\<rparr>)
            else
              (let cnt = fCmdsCnt s1 + 1;
                   cmd = \<lparr>fId = to_string (unat cnt), fName = name, fArg = arg,
                          fRunning = False, fReady = False, fResult = False,
                          fCallback = cb, cmdConnId = connid\<rparr>
               in CheckDataToSend e (s1\<lparr>fCmdsCnt := cnt, fCmds := fCmds s1 @ [cmd]\<rparr>))))"

text \<open>
  The predicate the blocking command polls on its own pointer to the command;
  \<open>has_conn\<close> is \<open>fWindow->HasConnection(cmd->fConnId)\<close>, \<open>late\<close> is \<open>tm > 100.\<close>.
\<close>

definition command_wait :: "bool \<Rightarrow> bool \<Rightarrow> WebCommand \<Rightarrow> int" where
  "command_wait has_conn late cmd =
     (if fReady cmd then (if fResult cmd then 1 else - 1)
      else if has_conn = False then - 2
      else if late then - 3
      else 0)"

definition int_to_string :: "int \<Rightarrow> string" where
  "int_to_string i = (if i < 0 then ''-'' @ to_string (nat (- i)) else to_string (nat i))"

definition DoWhenReady_waited :: "string \<Rightarrow> string \<Rightarrow> int \<Rightarrow> painter \<Rightarrow> painter" where
  "DoWhenReady_waited name arg res s =
     (if res \<le> 0
      then s\<lparr>errors := errors s @
             [name @ '' fail with '' @ arg @ '' result = '' @ int_to_string res]\<rparr>
      else s)"

definition AddPanel :: "env \<Rightarrow> painter \<Rightarrow> error + bool \<times> painter" where
  "AddPanel e s =
     (if fWindow s = False
      then Inr (False, s\<lparr>errors := errors s @ [''Canvas not yet shown in AddPanel'']\<rparr>)
      else if IsShown e = False
      then Inr (False, s\<lparr>errors := errors s @ [''Canvas window was not shown to call AddPanel'']\<rparr>)
      else if RelativeAddr e = []
      then Inr (False, s\<lparr>errors := errors s @ [''Cannot attach panel to canvas'']\<rparr>)
      else
        (case DoWhenReady e (''ADDPANEL:'' @ RelativeAddr e) ''AddPanel'' True None s of
           Inl err \<Rightarrow> Inl err
         | Inr s1 \<Rightarrow> Inr (True, s1)))"

text \<open>The destructor: every command and every update is cancelled, then the window closes.\<close>

definition destructor :: "painter \<Rightarrow> error + painter" where
  "destructor s =
     (case CancelUpdates (CancelCommands 0 s) of
        Inl err \<Rightarrow> Inl err
      | Inr s1 \<Rightarrow> Inr (if fWindow s1 then s1\<lparr>ext := ext s1 @ [CloseConnections]\<rparr> else s1))"

section \<open>Inbound messages\<close>

definition SaveCreatedFile :: "env \<Rightarrow> string \<Rightarrow> painter \<Rightarrow> painter" where
  "SaveCreatedFile e reply s =
     (case find_char (CHR '':'') reply of
        None \<Rightarrow> s\<lparr>errors := errors s @ [''SaveCreatedFile does not found ':' separator'']\<rparr>
      | Some pos \<Rightarrow>
          if pos = 0
          then s\<lparr>errors := errors s @ [''SaveCreatedFile does not found ':' separator'']\<rparr>
          else s\<lparr>files := files s @
                 written e (take pos reply) (Decode e (c_str (drop (Suc pos) reply)))\<rparr>)"

text \<open>
  \<open>FrontCommandReplied\<close> pops the head and decodes the reply by the command's name. The
  popped object keeps \<open>fReady\<close> and \<open>fResult\<close> for whoever still holds it. For an image the
  result is true for every reply that is not empty, whether or not the file opened. The caller has
  checked that the queue is not empty; \<open>front()\<close> of an empty list is a fault.
\<close>

definition FrontCommandReplied :: "env \<Rightarrow> string \<Rightarrow> painter \<Rightarrow> error + painter" where
  "FrontCommandReplied e reply s =
     (case fCmds s of
        [] \<Rightarrow> Inl NullPointer
      | cmd # rest \<Rightarrow>
          (let s1 = s\<lparr>fCmds := rest\<rparr>;
               image = (fName cmd = ''SVG'' \<or> fName cmd = ''PNG'' \<or> fName cmd = ''JPEG'');
               result =
                 (if image then reply \<noteq> []
                  else if starts_with ''ADDPANEL:'' (fName cmd) then reply = ''true''
                  else False);
               s2 =
                 (if image then
                    (if length reply = 0
                     then s1\<lparr>errors := errors s1 @ [''Fail to produce image'' @ fArg cmd]\<rparr>
                     else s1\<lparr>files := files s1 @ written e (fArg cmd) (Decode e (c_str reply))\<rparr>)
                  else if starts_with ''ADDPANEL:'' (fName cmd) then s1
                  else s1\<lparr>errors := errors s1 @ [''Unknown command '' @ fName cmd]\<rparr>)
           in Inr (s2\<lparr>released := released s2 @
                        [cmd\<lparr>fReady := True, fResult := result, fCallback := None\<rparr>],
                      fired := fired s2 @ invoke (fCallback cmd) result\<rparr>)))"

text \<open>The search loop of \<open>ProcessData\<close>: the position of the first record with the id.\<close>

fun find_conn :: "connid \<Rightarrow> WebConn list \<Rightarrow> nat option" where
  "find_conn connid [] = None"
| "find_conn connid (c # cs) =
     (if fConnId c = connid then Some 0 else map_option Suc (find_conn connid cs))"

definition on_conn :: "nat \<Rightarrow> (WebConn \<Rightarrow> WebConn) \<Rightarrow> painter \<Rightarrow> painter" where
  "on_conn i f s = s\<lparr>fWebConn := (fWebConn s)[i := f (fWebConn s ! i)]\<rparr>"

text \<open>
  The \<open>REPLY:\<close> branch: \<open>reply_ident\<close> is the id before the first colon of the C string
  (empty without a colon); it must be the running head's.
\<close>

definition reply_ident :: "string \<Rightarrow> string" where
  "reply_ident arg =
     (let sid = c_str (drop 6 arg)
      in case find_char (CHR '':'') sid of None \<Rightarrow> [] | Some p \<Rightarrow> take p sid)"

definition handle_reply :: "env \<Rightarrow> string \<Rightarrow> painter \<Rightarrow> error + painter" where
  "handle_reply e arg s =
     (let sid = c_str (drop 6 arg);
          separ = find_char (CHR '':'') sid
      in if fCmds s = [] then Inr (s\<lparr>errors := errors s @ [''Get REPLY without command'']\<rparr>)
         else if fRunning (hd (fCmds s)) = False
         then Inr (s\<lparr>errors := errors s @ [''Front command is not running when get reply'']\<rparr>)
         else if fId (hd (fCmds s)) \<noteq> reply_ident arg
         then Inr (s\<lparr>errors := errors s @ [''Mismatch with front command and ID in REPLY'']\<rparr>)
         else (case separ of
                 None \<Rightarrow> Inl NullPointer
               | Some p \<Rightarrow> FrontCommandReplied e (drop (Suc p) sid) s))"

definition handle_objexec :: "env \<Rightarrow> string \<Rightarrow> painter \<Rightarrow> painter" where
  "handle_objexec e arg s =
     (let cdata = drop 8 arg in
      case find_char (CHR '':'') cdata of
        None \<Rightarrow> s
      | Some pos \<Rightarrow>
          if 0 < pos then
            (case FindDrawable e (take pos cdata) of
               None \<Rightarrow> s
             | Some d \<Rightarrow>
                 if 0 < length (drop (Suc pos) cdata)
                 then s\<lparr>ext := ext s @ [Execute d (drop (Suc pos) cdata)]\<rparr>
                 else s)
          else s)"

text \<open>
  The if-chain of \<open>ProcessData\<close> for the connection found at position \<open>i\<close>. The boolean says
  whether control reaches the final \<open>CheckDataToSend\<close>: \<open>QUIT\<close> returns before it. A throw of
  \<open>std::stoll\<close> in the \<open>SNAPDONE:\<close> branch leaves \<open>ProcessData\<close> at once; the call ends with
  the error. \<open>std::stoll\<close> reads the C string of its argument, and a NUL byte is neither
  white space, sign nor digit, so it stops the scan like any other byte.
\<close>

definition handle_msg ::
  "env \<Rightarrow> nat \<Rightarrow> connid \<Rightarrow> string \<Rightarrow> painter \<Rightarrow> error + bool \<times> painter" where
  "handle_msg e i connid arg s =
     (if arg = ''CONN_CLOSED'' then
        Inr (True, CancelCommands connid
                     (s\<lparr>fWebConn := take i (fWebConn s) @ drop (Suc i) (fWebConn s)\<rparr>))
      else if starts_with ''READY'' arg then Inr (True, s)
      else if starts_with ''SNAPDONE:'' arg then
        (case stoll (drop 9 arg) of
           Inl err \<Rightarrow> Inl err
         | Inr v \<Rightarrow>
             Inr (True, on_conn i (\<lambda>c. c\<lparr>fDrawReady := True, fDelivered := word_of_int v\<rparr>) s))
      else if starts_with ''RREADY:'' arg then
        Inr (True, on_conn i (\<lambda>c. c\<lparr>fDrawReady := True\<rparr>) s)
      else if starts_with ''GETMENU:'' arg then
        Inr (True, on_conn i (\<lambda>c. c\<lparr>fGetMenu := drop 8 arg\<rparr>) s)
      else if arg = ''QUIT'' then Inr (False, s\<lparr>ext := ext s @ [Terminate]\<rparr>)
      else if arg = ''RELOAD'' then Inr (True, on_conn i (\<lambda>c. c\<lparr>fSend := 0\<rparr>) s)
      else if arg = ''INTERRUPT'' then Inr (True, s\<lparr>ext := ext s @ [SetInterrupt]\<rparr>)
      else if starts_with ''REPLY:'' arg then
        (case handle_reply e arg s of Inl err \<Rightarrow> Inl err | Inr s1 \<Rightarrow> Inr (True, s1))
      else if starts_with ''SAVE:'' arg then Inr (True, SaveCreatedFile e (drop 5 arg) s)
      else if starts_with ''OBJEXEC:'' arg then Inr (True, handle_objexec e arg s)
      else Inr (True, s\<lparr>errors := errors s @ [''Got not recognized reply'' @ arg]\<rparr>))"

definition new_conn :: "connid \<Rightarrow> WebConn" where
  "new_conn connid =
     \<lparr>fConnId = connid, fDrawReady = False, fGetMenu = [], fSend = 0, fDelivered = 0\<rparr>"

definition ProcessData :: "env \<Rightarrow> connid \<Rightarrow> string \<Rightarrow> painter \<Rightarrow> error + painter" where
  "ProcessData e connid arg s =
     (if arg = ''CONN_READY'' then
        CheckDataToSend e (s\<lparr>fWebConn := fWebConn s @ [new_conn connid], fHadWebConn := True\<rparr>)
      else
        (case find_conn connid (fWebConn s) of
           None \<Rightarrow> Inr s
         | Some i \<Rightarrow>
             (case handle_msg e i connid arg s of
                Inl err \<Rightarrow> Inl err
              | Inr (go_on, s1) \<Rightarrow> if go_on then CheckDataToSend e s1 else Inr s1)))"

section \<open>Runs\<close>

text \<open>
  One painter lives through a sequence of calls on its single control flow: requests of
  the caller, the end of a blocking command wait, and messages the window delivers.
\<close>

datatype event =
    EvCanvasUpdated env version bool "callback option"
  | EvDoWhenReady env string string bool "callback option"
  | EvWaited string string int
  | EvAddPanel env
  | EvNewDisplay string
  | EvProcessData env connid string

fun step :: "event \<Rightarrow> painter \<Rightarrow> error + painter" where
  "step (EvCanvasUpdated e ver async cb) s = CanvasUpdated e ver async cb s"
| "step (EvDoWhenReady e name arg async cb) s = DoWhenReady e name arg async cb s"
| "step (EvWaited name arg res) s = Inr (DoWhenReady_waited name arg res s)"
| "step (EvAddPanel e) s = map_sum id snd (AddPanel e s)"
| "step (EvNewDisplay wher) s = Inr (NewDisplay wher s)"
| "step (EvProcessData e connid arg) s = ProcessData e connid arg s"

fun run :: "event list \<Rightarrow> painter \<Rightarrow> error + painter" where
  "run [] s = Inr s"
| "run (ev # evs) s = (case step ev s of Inl err \<Rightarrow> Inl err | Inr s1 \<Rightarrow> run evs s1)"

section \<open>Properties of the state\<close>

text \<open>Single flight: no command behind the queue head is running.\<close>

definition single_flight :: "WebCommand list \<Rightarrow> bool" where
  "single_flight q = (\<forall>cmd \<in> set (tl q). fRunning cmd = False)"

text \<open>
  The callbacks the painter still holds (in queued commands and pending updates), the
  callbacks it has invoked, and the callbacks a call hands to a command or an update.
\<close>

definition opt_mset :: "'a option \<Rightarrow> 'a multiset" where
  "opt_mset x = (case x of None \<Rightarrow> {#} | Some a \<Rightarrow> {#a#})"

definition held :: "painter \<Rightarrow> callback multiset" where
  "held s =
     (\<Sum>cmd\<leftarrow>fCmds s. opt_mset (fCallback cmd)) + (\<Sum>u\<leftarrow>fUpdatesLst s. opt_mset (updCallback u))"

definition called :: "painter \<Rightarrow> callback multiset" where
  "called s = mset (map fst (fired s))"

fun handed :: "event \<Rightarrow> callback multiset" where
  "handed (EvCanvasUpdated e ver async cb) = opt_mset cb"
| "handed (EvDoWhenReady e name arg async cb) = (if name = ''JSON'' then {#} else opt_mset cb)"
| "handed ev = {#}"

text \<open>Every pending update carries a callback: \<open>CanvasUpdated\<close> stores no other.\<close>

definition updates_armed :: "painter \<Rightarrow> bool" where
  "updates_armed s = (\<forall>u \<in> set (fUpdatesLst s). updCallback u \<noteq> None)"

text \<open>What the loop of the push pass leaves in \<open>min_delivered\<close>.\<close>

fun scan_delivered :: "WebConn list \<Rightarrow> version \<Rightarrow> version" where
  "scan_delivered [] md = md"
| "scan_delivered (conn # rest) md =
     scan_delivered rest
       (if fDelivered conn \<noteq> 0 \<and> (md = 0 \<or> md < fDelivered conn) then fDelivered conn else md)"

text \<open>
  A painter is settled when its delivered version is what the loop of the push pass computes
  from the connections, and connections exist only with a window and the sticky flag set.
\<close>

definition settled :: "painter \<Rightarrow> bool" where
  "settled s =
     (fSnapshotDelivered s = scan_delivered (fWebConn s) 0 \<and>
      (fWebConn s = [] \<or> (fWindow s \<and> fHadWebConn s)))"

text \<open>
  A connection wants the command when it can be sent to and passes the test of the first
  branch. In one push pass the command goes to the first connection, in the order of the
  registry, that wants it: once it is dispatched the head is running, and no later
  connection passes the test.
\<close>

definition wants_command :: "env \<Rightarrow> WebCommand list \<Rightarrow> WebConn \<Rightarrow> bool" where
  "wants_command e q conn = (CanSend e (fConnId conn) \<and> head_eligible conn q)"

definition takes_command :: "env \<Rightarrow> WebCommand list \<Rightarrow> WebConn list \<Rightarrow> nat \<Rightarrow> bool" where
  "takes_command e q cs i =
     (wants_command e q (cs ! i) \<and> (\<forall>c \<in> set (take i cs). wants_command e q c = False))"

text \<open>
  What one push pass does with one connection: the record it leaves and the payloads it
  sends. \<open>cmd_here\<close> says whether the command goes to this connection; \<open>t\<close> is the painter
  the pass started from.
\<close>

definition outcome :: "env \<Rightarrow> painter \<Rightarrow> bool \<Rightarrow> WebConn \<Rightarrow> WebConn \<times> (connid \<times> string) list" where
  "outcome e t cmd_here conn =
     (if CanSend e (fConnId conn) = False then (conn, [])
      else if cmd_here then
        (conn, [(fConnId conn, c_str (''CMD:'' @ fId (hd (fCmds t)) @ '':'' @ fName (hd (fCmds t))))])
      else if fGetMenu conn \<noteq> [] then
        (conn\<lparr>fGetMenu := []\<rparr>,
         case FindDrawable e (fGetMenu conn) of
           None \<Rightarrow> []
         | Some d \<Rightarrow> [(fConnId conn, c_str (''MENU:'' @ fGetMenu conn @ '':'' @ MenuJSON e d))])
      else if fSend conn \<noteq> fSnapshotVersion t then
        (conn\<lparr>fSend := fSnapshotVersion t\<rparr>,
         [(fConnId conn,
           c_str (''SNAP:'' @ to_string (unat (fSnapshotVersion t)) @ '':'' @ fSnapshot t))])
      else (conn, []))"

text \<open>
  A viewer connects with the message \<open>CONN_READY\<close>. A painter has no viewer when none is
  registered, none ever was, and no version has been delivered.
\<close>

fun connects :: "event \<Rightarrow> bool" where
  "connects (EvProcessData e connid arg) = (arg = ''CONN_READY'')"
| "connects ev = False"

definition no_viewer :: "painter \<Rightarrow> bool" where
  "no_viewer s = (fHadWebConn s = False \<and> fWebConn s = [] \<and> fSnapshotDelivered s = 0)"

section \<open>Concrete runs\<close>

definition env_open :: env where
  "env_open = \<lparr>CanSend = (\<lambda>c. True), IsShown = True, MakeBatch = 1, RelativeAddr = ''win2'',
     CanvasFind = (\<lambda>i. i = ''hist''), MenuJSON = (\<lambda>i. ''[]''), ToJSON = ''{}'',
     DumpJSON = ''{}'', Decode = (\<lambda>x. x), CanOpen = (\<lambda>p. True)\<rparr>"

definition env_busy :: env where
  "env_busy = env_open\<lparr>CanSend := (\<lambda>c. False)\<rparr>"

definition env_hidden :: env where
  "env_hidden = env_open\<lparr>IsShown := False\<rparr>"

text \<open>Scenario D: two viewers, an update to version 3; one confirms 3, the other only 2.\<close>

definition scenario_D :: "event list" where
  "scenario_D =
     [EvNewDisplay ''browser'',
      EvProcessData env_open 1 ''CONN_READY'',
      EvProcessData env_open 2 ''CONN_READY'',
      EvCanvasUpdated env_open 3 True (Some 7),
      EvProcessData env_open 1 ''SNAPDONE:3'',
      EvProcessData env_open 2 ''SNAPDONE:2'']"

text \<open>The state after scenario D.\<close>

definition two_viewers :: painter where
  "two_viewers =
     \<lparr>fWindow = True,
      fWebConn =
        [\<lparr>fConnId = 1, fDrawReady = True, fGetMenu = [], fSend = 3, fDelivered = 3\<rparr>,
         \<lparr>fConnId = 2, fDrawReady = True, fGetMenu = [], fSend = 3, fDelivered = 2\<rparr>],
      fHadWebConn = True, fCmds = [], fCmdsCnt = 0, fSnapshotVersion = 3,
      fSnapshot = ''{}'', fSnapshotDelivered = 3, fUpdatesLst = [], fNextDumpName = [],
      released = [], fired = [(7, True)], sent = [(1, ''SNAP:3:{}''), (2, ''SNAP:3:{}'')],
      files = [], errors = [], ext = [Show ''browser'']\<rparr>"

text \<open>
  Scenario C up to the dispatch: a PNG export is requested, the batch viewer connects and
  reports its first drawing, and the command goes out to it.
\<close>

definition png_run :: "event list" where
  "png_run =
     [EvNewDisplay ''browser'',
      EvDoWhenReady env_open ''PNG'' ''/tmp/out.png'' True (Some 4),
      EvProcessData env_open 1 ''CONN_READY'',
      EvProcessData env_open 1 ''RREADY:'']"

definition png_cmd :: WebCommand where
  "png_cmd = \<lparr>fId = ''1'', fName = ''PNG'', fArg = ''/tmp/out.png'', fRunning = True,
     fReady = False, fResult = False, fCallback = Some 4, cmdConnId = 1\<rparr>"

definition png_running :: painter where
  "png_running =
     \<lparr>fWindow = True,
      fWebConn =
        [\<lparr>fConnId = 1, fDrawReady = True, fGetMenu = [], fSend = 0, fDelivered = 0\<rparr>],
      fHadWebConn = True, fCmds = [png_cmd], fCmdsCnt = 1, fSnapshotVersion = 0,
      fSnapshot = [], fSnapshotDelivered = 0, fUpdatesLst = [], fNextDumpName = [],
      released = [], fired = [], sent = [(1, ''CMD:1:PNG'')], files = [], errors = [],
      ext = [Show ''browser'']\<rparr>"

text \<open>A second export is requested while the first is in flight.\<close>

definition two_commands :: "event list" where
  "two_commands = png_run @ [EvDoWhenReady env_open ''SVG'' ''/tmp/out.svg'' True (Some 5)]"

definition svg_cmd :: WebCommand where
  "svg_cmd = \<lparr>fId = ''2'', fName = ''SVG'', fArg = ''/tmp/out.svg'', fRunning = False,
     fReady = False, fResult = False, fCallback = Some 5, cmdConnId = 1\<rparr>"

definition two_queued :: painter where
  "two_queued = png_running\<lparr>fCmds := [png_cmd, svg_cmd], fCmdsCnt := 2\<rparr>"


text \<open>
  A viewer connects, an update to version 5 is submitted with a callback, and the viewer
  disconnects before it confirms anything.
\<close>

definition lost_run :: "event list" where
  "lost_run =
     [EvNewDisplay ''browser'',
      EvProcessData env_open 1 ''CONN_READY'',
      EvCanvasUpdated env_open 5 True (Some 7),
      EvProcessData env_open 1 ''CONN_CLOSED'']"

text \<open>Scenario A with the window shown: an update to version 5 and no viewer, ever.\<close>

definition nobody_run :: "event list" where
  "nobody_run =
     [EvNewDisplay ''browser'',
      EvCanvasUpdated env_open 5 True (Some 7)]"

text \<open>
  A viewer has drawn; a PNG export is submitted while the window cannot send, so the
  command waits in the queue, not running.
\<close>

definition stale_run :: "event list" where
  "stale_run =
     [EvNewDisplay ''browser'',
      EvProcessData env_open 1 ''CONN_READY'',
      EvProcessData env_open 1 ''RREADY:'',
      EvDoWhenReady env_busy ''PNG'' ''/tmp/out.png'' True (Some 4)]"

definition waiting_cmd :: WebCommand where
  "waiting_cmd = png_cmd\<lparr>fRunning := False\<rparr>"

text \<open>A push pass with a new snapshot version while only the second viewer can be sent to.\<close>

definition env_second :: env where
  "env_second = env_open\<lparr>CanSend := (\<lambda>c. c = 2)\<rparr>"

definition resync_before :: painter where
  "resync_before = two_viewers\<lparr>fSnapshotVersion := 4\<rparr>"

definition resync_after :: painter where
  "resync_after =
     resync_before
       \<lparr>fWebConn :=
          [\<lparr>fConnId = 1, fDrawReady = True, fGetMenu = [], fSend = 3, fDelivered = 3\<rparr>,
           \<lparr>fConnId = 2, fDrawReady = True, fGetMenu = [], fSend = 4, fDelivered = 2\<rparr>],
        sent := [(1, ''SNAP:3:{}''), (2, ''SNAP:3:{}''), (2, ''SNAP:4:{}'')]\<rparr>"

text \<open>
  After scenario D the first viewer asks for the menu of \<open>ghost\<close>, an id the canvas has no
  drawable for, while the window cannot send; the request waits for the next push pass.
\<close>

definition ghost_run :: "event list" where
  "ghost_run = scenario_D @ [EvProcessData env_busy 1 ''GETMENU:ghost'']"



text \<open>
  Three viewers; the first has asked for the menu of \<open>hist\<close> and has not drawn yet, a PNG
  export bound to the second is queued, and the snapshot is at version 4; the window could
  not send so far.
\<close>

definition env_batch2 :: env where
  "env_batch2 = env_busy\<lparr>MakeBatch := 2\<rparr>"

definition mixed_run :: "event list" where
  "mixed_run =
     [EvNewDisplay ''browser'',
      EvProcessData env_open 1 ''CONN_READY'',
      EvProcessData env_open 2 ''CONN_READY'',
      EvProcessData env_open 3 ''CONN_READY'',
      EvProcessData env_busy 2 ''RREADY:'',
      EvProcessData env_busy 3 ''RREADY:'',
      EvProcessData env_busy 1 ''GETMENU:hist'',
      EvDoWhenReady env_batch2 ''PNG'' ''/tmp/out.png'' True (Some 4),
      EvCanvasUpdated env_busy 4 True None]"

definition mixed_before :: painter where
  "mixed_before =
     \<lparr>fWindow = True,
      fWebConn =
        [\<lparr>fConnId = 1, fDrawReady = False, fGetMenu = ''hist'', fSend = 0, fDelivered = 0\<rparr>,
         \<lparr>fConnId = 2, fDrawReady = True, fGetMenu = [], fSend = 0, fDelivered = 0\<rparr>,
         \<lparr>fConnId = 3, fDrawReady = True, fGetMenu = [], fSend = 0, fDelivered = 0\<rparr>],
      fHadWebConn = True,
      fCmds = [\<lparr>fId = ''1'', fName = ''PNG'', fArg = ''/tmp/out.png'', fRunning = False,
                fReady = False, fResult = False, fCallback = Some 4, cmdConnId = 2\<rparr>],
      fCmdsCnt = 1, fSnapshotVersion = 4, fSnapshot = ''{}'', fSnapshotDelivered = 0,
      fUpdatesLst = [], fNextDumpName = [], released = [], fired = [], sent = [],
      files = [], errors = [], ext = [Show ''browser'']\<rparr>"

text \<open>The same painter after one push pass with every viewer able to receive.\<close>

definition mixed_after :: painter where
  "mixed_after =
     \<lparr>fWindow = True,
      fWebConn =
        [\<lparr>fConnId = 1, fDrawReady = False, fGetMenu = [], fSend = 0, fDelivered = 0\<rparr>,
         \<lparr>fConnId = 2, fDrawReady = True, fGetMenu = [], fSend = 0, fDelivered = 0\<rparr>,
         \<lparr>fConnId = 3, fDrawReady = True, fGetMenu = [], fSend = 4, fDelivered = 0\<rparr>],
      fHadWebConn = True,
      fCmds = [\<lparr>fId = ''1'', fName = ''PNG'', fArg = ''/tmp/out.png'', fRunning = True,
                fReady = False, fResult = False, fCallback = Some 4, cmdConnId = 2\<rparr>],
      fCmdsCnt = 1, fSnapshotVersion = 4, fSnapshot = ''{}'', fSnapshotDelivered = 0,
      fUpdatesLst = [], fNextDumpName = [], released = [], fired = [],
      sent = [(1, ''MENU:hist:[]''), (2, ''CMD:1:PNG''), (3, ''SNAP:4:{}'')],
      files = [], errors = [], ext = [Show ''browser'']\<rparr>"

text \<open>
  The painter with its window shown and no viewer; the same with an update to version 5
  pending; calls that follow while still no viewer connects.
\<close>

definition window_shown :: painter where
  "window_shown = init\<lparr>fWindow := True, ext := [Show ''browser'']\<rparr>"

definition update_pending :: painter where
  "update_pending =
     \<lparr>fWindow = True, fWebConn = [], fHadWebConn = False, fCmds = [], fCmdsCnt = 0,
      fSnapshotVersion = 5, fSnapshot = ''{}'', fSnapshotDelivered = 0,
      fUpdatesLst = [\<lparr>fVersion = 5, updCallback = Some 7\<rparr>], fNextDumpName = [],
      released = [], fired = [], sent = [], files = [], errors = [],
      ext = [Show ''browser'']\<rparr>"

definition quiet_later :: "event list" where
  "quiet_later =
     [EvProcessData env_open 1 ''SNAPDONE:5'',
      EvDoWhenReady env_open ''PNG'' ''/tmp/out.png'' True (Some 4)]"



text \<open>
  An environment where no file can be opened, and scenario C answered with an image while
  the output file cannot be opened.
\<close>

definition env_readonly :: env where
  "env_readonly = env_open\<lparr>CanOpen := (\<lambda>p. False)\<rparr>"

definition unopened_run :: "event list" where
  "unopened_run = png_run @ [EvProcessData env_readonly 1 ''REPLY:1:aGk='']"

section \<open>The loops\<close>

lemma CancelCommands_loop_eq:
  "CancelCommands_loop c cs kept s =
     s\<lparr>fCmds := kept @ filter (\<lambda>cmd. \<not> (c = 0 \<or> cmdConnId cmd = c)) cs,
       released := released s @ map cancelled (filter (\<lambda>cmd. c = 0 \<or> cmdConnId cmd = c) cs),
       fired := fired s @ concat (map (\<lambda>cmd. invoke (fCallback cmd) False) (filter (\<lambda>cmd. c = 0 \<or> cmdConnId cmd = c) cs))\<rparr>"
  by (induction cs arbitrary: kept s) auto

lemma CancelCommands_eq:
  "CancelCommands c s =
     s\<lparr>fCmds := filter (\<lambda>cmd. \<not> (c = 0 \<or> cmdConnId cmd = c)) (fCmds s),
       released := released s @ map cancelled (filter (\<lambda>cmd. c = 0 \<or> cmdConnId cmd = c) (fCmds s)),
       fired := fired s @ concat (map (\<lambda>cmd. invoke (fCallback cmd) False) (filter (\<lambda>cmd. c = 0 \<or> cmdConnId cmd = c) (fCmds s)))\<rparr>"
  by (simp add: CancelCommands_def CancelCommands_loop_eq)

lemma CancelCommands_updates [simp]: "fUpdatesLst (CancelCommands c s) = fUpdatesLst s"
  by (simp add: CancelCommands_eq)

lemma push_one_cmds:
  "fCmds (snd (push_one e conn s)) = fCmds s \<or>
   (fCmds s \<noteq> [] \<and> fRunning (hd (fCmds s)) = False \<and>
    fCmds (snd (push_one e conn s)) = (hd (fCmds s))\<lparr>fRunning := True, cmdConnId := fConnId conn\<rparr> # tl (fCmds s))"
  by (auto simp: push_one_def head_eligible_def Let_def split: option.splits)

lemma push_one_frame: "\<exists>q m. snd (push_one e conn s) = s\<lparr>fCmds := q, sent := m\<rparr>"
proof -
  have "snd (push_one e conn s) = s\<lparr>fCmds := fCmds (snd (push_one e conn s)), sent := sent (snd (push_one e conn s))\<rparr>"
    by (auto simp: push_one_def Let_def split: option.splits)
  then show ?thesis by blast
qed

lemma push_one_conn: "fConnId (fst (push_one e conn s)) = fConnId conn \<and> fDelivered (fst (push_one e conn s)) = fDelivered conn"
  by (auto simp: push_one_def Let_def)

lemma push_one_sent:
  "sent (snd (push_one e conn s)) = sent s \<or>
   (\<exists>p. sent (snd (push_one e conn s)) = sent s @ [(fConnId conn, p)])"
  by (auto simp: push_one_def Let_def split: option.splits)

lemma send_loop_frame: "\<exists>q m. snd (snd (send_loop e cs seen md s)) = s\<lparr>fCmds := q, sent := m\<rparr>"
proof (induction cs arbitrary: seen md s)
  case Nil
  have "s = s\<lparr>fCmds := fCmds s, sent := sent s\<rparr>" by simp
  then show ?case by (metis send_loop.simps(1) snd_conv)
next
  case (Cons conn rest)
  show ?case
  proof (cases "CanSend e (fConnId conn)")
    case True
    obtain q1 m1 where s1: "snd (push_one e conn s) = s\<lparr>fCmds := q1, sent := m1\<rparr>"
      using push_one_frame by blast
    from Cons [of _ _ "snd (push_one e conn s)"] True s1 show ?thesis
      by (simp add: Let_def) 
  next
    case False
    with Cons show ?thesis by (simp add: Let_def)
  qed
qed

lemma send_loop_cmds:
  "fCmds (snd (snd (send_loop e cs seen md s))) = fCmds s \<or>
   (fCmds s \<noteq> [] \<and> fRunning (hd (fCmds s)) = False \<and>
    (\<exists>k. fCmds (snd (snd (send_loop e cs seen md s))) =
       (hd (fCmds s))\<lparr>fRunning := True, cmdConnId := k\<rparr> # tl (fCmds s)))"
proof (induction cs arbitrary: seen md s)
  case Nil
  then show ?case by simp
next
  case (Cons conn rest)
  show ?case
  proof (cases "CanSend e (fConnId conn)")
    case False
    with Cons show ?thesis by (simp add: Let_def)
  next
    case True
    define s1 where "s1 = snd (push_one e conn s)"
    define md1 where "md1 = (if fDelivered conn \<noteq> 0 \<and> (md = 0 \<or> md < fDelivered conn)
                 then fDelivered conn else md)"
    define r where "r = fCmds (snd (snd (send_loop e rest (seen @ [fst (push_one e conn s)]) md1 s1)))"
    have unfold: "fCmds (snd (snd (send_loop e (conn # rest) seen md s))) = r"
      using True by (simp add: Let_def r_def s1_def md1_def)
    have ih: "r = fCmds s1 \<or> (fCmds s1 \<noteq> [] \<and> fRunning (hd (fCmds s1)) = False \<and>
        (\<exists>k. r = (hd (fCmds s1))\<lparr>fRunning := True, cmdConnId := k\<rparr> # tl (fCmds s1)))"
      unfolding r_def by (rule Cons.IH)
    from push_one_cmds [of e conn s]
    consider (same) "fCmds s1 = fCmds s"
      | (started) "fCmds s \<noteq> []" "fRunning (hd (fCmds s)) = False"
          "fCmds s1 = (hd (fCmds s))\<lparr>fRunning := True, cmdConnId := fConnId conn\<rparr> # tl (fCmds s)"
      unfolding s1_def by blast
    then show ?thesis
    proof cases
      case same
      with ih unfold show ?thesis by simp
    next
      case started
      from started(3) have "fRunning (hd (fCmds s1))" by simp
      with ih have "r = fCmds s1" by blast
      with started unfold show ?thesis by auto
    qed
  qed
qed

lemma send_loop_md: "fst (snd (send_loop e cs seen md s)) = scan_delivered cs md"
  by (induction cs arbitrary: seen md s) (auto simp: Let_def)

lemma send_loop_conns:
  "length (fst (send_loop e cs seen md s)) = length seen + length cs \<and>
   map fConnId (fst (send_loop e cs seen md s)) = map fConnId (seen @ cs) \<and>
   map fDelivered (fst (send_loop e cs seen md s)) = map fDelivered (seen @ cs)"
  by (induction cs arbitrary: seen md s) (auto simp: Let_def push_one_conn)

lemma send_loop_sent:
  "\<exists>new. sent (snd (snd (send_loop e cs seen md s))) = sent s @ new \<and>
     subseq (map fst new) (map fConnId (filter (\<lambda>c. CanSend e (fConnId c)) cs))"
proof (induction cs arbitrary: seen md s)
  case Nil
  then show ?case by simp
next
  case (Cons conn rest)
  show ?case
  proof (cases "CanSend e (fConnId conn)")
    case False
    with Cons show ?thesis by (simp add: Let_def)
  next
    case True
    define s1 where "s1 = snd (push_one e conn s)"
    define md1 where "md1 = (if fDelivered conn \<noteq> 0 \<and> (md = 0 \<or> md < fDelivered conn)
                 then fDelivered conn else md)"
    define r where "r = snd (snd (send_loop e rest (seen @ [fst (push_one e conn s)]) md1 s1))"
    have unfold: "snd (snd (send_loop e (conn # rest) seen md s)) = r"
      using True by (simp add: Let_def r_def s1_def md1_def)
    obtain new where n: "sent r = sent s1 @ new"
      "subseq (map fst new) (map fConnId (filter (\<lambda>c. CanSend e (fConnId c)) rest))"
      unfolding r_def using Cons.IH by blast
    from push_one_sent [of e conn s]
    consider (none) "sent s1 = sent s" | (one) p where "sent s1 = sent s @ [(fConnId conn, p)]"
      unfolding s1_def by blast
    then show ?thesis
    proof cases
      case none
      with n True unfold show ?thesis by (auto intro: list_emb_Cons)
    next
      case one
      with n True unfold have "sent (snd (snd (send_loop e (conn # rest) seen md s))) =
          sent s @ ((fConnId conn, p) # new) \<and>
        subseq (map fst ((fConnId conn, p) # new))
          (map fConnId (filter (\<lambda>c. CanSend e (fConnId c)) (conn # rest)))"
        by simp
      then show ?thesis by blast
    qed
  qed
qed

lemma send_loop_skip:
  "\<exists>cs'. fst (send_loop e cs seen md s) = seen @ cs' \<and> length cs' = length cs \<and>
     (\<forall>i < length cs. CanSend e (fConnId (cs ! i)) = False \<longrightarrow> cs' ! i = cs ! i)"
proof (induction cs arbitrary: seen md s)
  case Nil
  then show ?case by simp
next
  case (Cons conn rest)
  define c1 where "c1 = (if CanSend e (fConnId conn) then fst (push_one e conn s) else conn)"
  define s1 where "s1 = (if CanSend e (fConnId conn) then snd (push_one e conn s) else s)"
  define md1 where "md1 = (if fDelivered conn \<noteq> 0 \<and> (md = 0 \<or> md < fDelivered conn)
                 then fDelivered conn else md)"
  have unfold: "send_loop e (conn # rest) seen md s = send_loop e rest (seen @ [c1]) md1 s1"
    by (simp add: Let_def c1_def s1_def md1_def)
  obtain cs' where r: "fst (send_loop e rest (seen @ [c1]) md1 s1) = (seen @ [c1]) @ cs'"
    "length cs' = length rest"
    "\<forall>i < length rest. CanSend e (fConnId (rest ! i)) = False \<longrightarrow> cs' ! i = rest ! i"
    using Cons.IH by blast
  have "\<forall>i < length (conn # rest). CanSend e (fConnId ((conn # rest) ! i)) = False \<longrightarrow>
      (c1 # cs') ! i = (conn # rest) ! i"
  proof (intro allI impI)
    fix i assume "i < length (conn # rest)" "CanSend e (fConnId ((conn # rest) ! i)) = False"
    then show "(c1 # cs') ! i = (conn # rest) ! i"
      using r(3) by (cases i) (auto simp: c1_def)
  qed
  with r unfold have "fst (send_loop e (conn # rest) seen md s) = seen @ (c1 # cs') \<and>
     length (c1 # cs') = length (conn # rest) \<and>
     (\<forall>i < length (conn # rest). CanSend e (fConnId ((conn # rest) ! i)) = False \<longrightarrow>
        (c1 # cs') ! i = (conn # rest) ! i)"
    by simp
  then show ?case by blast
qed

lemma deliver_loop_kept:
  "x \<in> set (fst (deliver_loop v us kept fr)) \<Longrightarrow> x \<in> set kept \<or> x \<in> set us"
  by (induction us arbitrary: kept fr) (fastforce split: if_splits)+

text \<open>
  The push pass in one equation: the loop changes the connections, the queue and the
  sent log; what follows changes the delivered version, the updates and the callback log.
\<close>

lemma CheckDataToSend_eq:
  "CheckDataToSend e s =
     (let s1 = s\<lparr>fCmds := fCmds (snd (snd (send_loop e (fWebConn s) [] 0 s))),
                  sent := sent (snd (snd (send_loop e (fWebConn s) [] 0 s))),
                  fWebConn := fst (send_loop e (fWebConn s) [] 0 s)\<rparr>;
          md = scan_delivered (fWebConn s) 0
      in if fWebConn s \<noteq> [] \<and> fWindow s = False then Inl NullPointer
         else if fWebConn s = [] \<and> fSnapshotDelivered s \<noteq> 0 then CancelUpdates s1
         else if fSnapshotDelivered s \<noteq> md then
           Inr (s1\<lparr>fSnapshotDelivered := md,
                   fUpdatesLst := fst (deliver_loop md (fUpdatesLst s) [] (fired s)),
                   fired := snd (deliver_loop md (fUpdatesLst s) [] (fired s))\<rparr>)
         else Inr s1)"
proof -
  define L where "L = send_loop e (fWebConn s) [] 0 s"
  obtain a b s1 where L: "L = (a, b, s1)" by (cases L)
  obtain q m where "snd (snd L) = s\<lparr>fCmds := q, sent := m\<rparr>"
    using send_loop_frame unfolding L_def by blast
  with L have s1: "s1 = s\<lparr>fCmds := q, sent := m\<rparr>" by simp
  have "fst (snd L) = scan_delivered (fWebConn s) 0"
    unfolding L_def by (rule send_loop_md)
  with L have b: "b = scan_delivered (fWebConn s) 0" by simp
  have "length (fst L) = length (fWebConn s)"
    unfolding L_def using send_loop_conns [of e "fWebConn s" "[]" 0 s] by simp
  with L have a: "a = [] \<longleftrightarrow> fWebConn s = []" by auto
  show ?thesis
    unfolding CheckDataToSend_def L_def [symmetric]
    by (auto simp: L s1 b a Let_def split: prod.splits)
qed

lemma CheckDataToSend_cmds:
  "CheckDataToSend e s = Inr s' \<Longrightarrow>
     fCmds s' = fCmds (snd (snd (send_loop e (fWebConn s) [] 0 s)))"
  by (auto simp: CheckDataToSend_eq Let_def CancelUpdates_def split: if_splits sum.splits)

lemma CheckDataToSend_queue:
  assumes "CheckDataToSend e s = Inr s'"
  shows "fCmds s' = fCmds s \<or>
     (fCmds s \<noteq> [] \<and> fRunning (hd (fCmds s)) = False \<and>
      (\<exists>k. fCmds s' = (hd (fCmds s))\<lparr>fRunning := True, cmdConnId := k\<rparr> # tl (fCmds s)))"
  using send_loop_cmds [of e "fWebConn s" "[]" 0 s] CheckDataToSend_cmds [OF assms] by simp

lemma CheckDataToSend_sent:
  "CheckDataToSend e s = Inr s' \<Longrightarrow>
     sent s' = sent (snd (snd (send_loop e (fWebConn s) [] 0 s)))"
  by (auto simp: CheckDataToSend_eq Let_def CancelUpdates_def split: if_splits sum.splits)

lemma CheckDataToSend_conns:
  "CheckDataToSend e s = Inr s' \<Longrightarrow> fWebConn s' = fst (send_loop e (fWebConn s) [] 0 s)"
  by (auto simp: CheckDataToSend_eq Let_def CancelUpdates_def split: if_splits sum.splits)

lemma CheckDataToSend_updates:
  assumes "CheckDataToSend e s = Inr s'"
  shows "(CancelUpdates_loop (fUpdatesLst s) (fired s) = Inr (fired s') \<and> fUpdatesLst s' = []) \<or>
     (fUpdatesLst s' = fst (deliver_loop (scan_delivered (fWebConn s) 0) (fUpdatesLst s) [] (fired s)) \<and>
      fired s' = snd (deliver_loop (scan_delivered (fWebConn s) 0) (fUpdatesLst s) [] (fired s))) \<or>
     (fUpdatesLst s' = fUpdatesLst s \<and> fired s' = fired s)"
  using assms
  by (auto simp: CheckDataToSend_eq Let_def CancelUpdates_def split: if_splits sum.splits)

lemma CheckDataToSend_updates_subset:
  assumes "CheckDataToSend e s = Inr s'" and "u \<in> set (fUpdatesLst s')"
  shows "u \<in> set (fUpdatesLst s)"
  using CheckDataToSend_updates [OF assms(1)] assms(2)
    deliver_loop_kept [of u "scan_delivered (fWebConn s) 0" "fUpdatesLst s" "[]" "fired s"]
  by auto

lemma outcome_same:
  "fCmds t1 = fCmds t \<Longrightarrow> fSnapshotVersion t1 = fSnapshotVersion t \<Longrightarrow> fSnapshot t1 = fSnapshot t \<Longrightarrow>
     outcome e t1 b c = outcome e t b c"
  by (simp add: outcome_def)

lemma outcome_no_command:
  "fSnapshotVersion t1 = fSnapshotVersion t \<Longrightarrow> fSnapshot t1 = fSnapshot t \<Longrightarrow>
     outcome e t1 False c = outcome e t False c"
  by (simp add: outcome_def)

lemma push_one_outcome:
  assumes "CanSend e (fConnId conn)"
  shows "fst (push_one e conn t) = fst (outcome e t (head_eligible conn (fCmds t)) conn)"
    and "sent (snd (push_one e conn t)) =
           sent t @ snd (outcome e t (head_eligible conn (fCmds t)) conn)"
    and "fCmds (snd (push_one e conn t)) =
           (if head_eligible conn (fCmds t)
            then (hd (fCmds t))\<lparr>fRunning := True, cmdConnId := fConnId conn\<rparr> # tl (fCmds t)
            else fCmds t)"
    and "fSnapshotVersion (snd (push_one e conn t)) = fSnapshotVersion t"
    and "fSnapshot (snd (push_one e conn t)) = fSnapshot t"
  using assms by (auto simp: push_one_def outcome_def Let_def split: option.splits)

lemma wants_after_dispatch:
  "wants_command e (cmd\<lparr>fRunning := True, cmdConnId := k\<rparr> # rest) c = False"
  by (simp add: wants_command_def head_eligible_def)

lemma takes_command_Cons:
  "takes_command e q (conn # rest) 0 = wants_command e q conn"
  "takes_command e q (conn # rest) (Suc k) =
     (wants_command e q conn = False \<and> takes_command e q rest k)"
  by (auto simp: takes_command_def)

lemma send_loop_outcome:
  "\<exists>cs' ps. fst (send_loop e cs seen md t) = seen @ cs' \<and> length cs' = length cs \<and>
     length ps = length cs \<and>
     sent (snd (snd (send_loop e cs seen md t))) = sent t @ concat ps \<and>
     (\<forall>i < length cs. (cs' ! i, ps ! i) = outcome e t (takes_command e (fCmds t) cs i) (cs ! i)) \<and>
     (\<forall>i < length cs. takes_command e (fCmds t) cs i \<longrightarrow>
        fCmds (snd (snd (send_loop e cs seen md t))) =
          (hd (fCmds t))\<lparr>fRunning := True, cmdConnId := fConnId (cs ! i)\<rparr> # tl (fCmds t)) \<and>
     ((\<forall>c \<in> set cs. wants_command e (fCmds t) c = False) \<longrightarrow>
        fCmds (snd (snd (send_loop e cs seen md t))) = fCmds t)"
proof (induction cs arbitrary: seen md t)
  case Nil
  show ?case by simp
next
  case (Cons conn rest)
  define w where "w = wants_command e (fCmds t) conn"
  define c1 where "c1 = (if CanSend e (fConnId conn) then fst (push_one e conn t) else conn)"
  define t1 where "t1 = (if CanSend e (fConnId conn) then snd (push_one e conn t) else t)"
  define md1 where "md1 = (if fDelivered conn \<noteq> 0 \<and> (md = 0 \<or> md < fDelivered conn)
                 then fDelivered conn else md)"
  define p0 where "p0 = snd (outcome e t w conn)"
  define R where "R = send_loop e rest (seen @ [c1]) md1 t1"
  have unfold: "send_loop e (conn # rest) seen md t = R"
    by (simp add: Let_def c1_def t1_def md1_def R_def)
  have head: "(c1, p0) = outcome e t w conn" and sent1: "sent t1 = sent t @ p0"
    and ver: "fSnapshotVersion t1 = fSnapshotVersion t" "fSnapshot t1 = fSnapshot t"
    and q1: "fCmds t1 = (if w then (hd (fCmds t))\<lparr>fRunning := True, cmdConnId := fConnId conn\<rparr> #
                 tl (fCmds t) else fCmds t)"
  proof -
    show "(c1, p0) = outcome e t w conn" "sent t1 = sent t @ p0"
      "fSnapshotVersion t1 = fSnapshotVersion t" "fSnapshot t1 = fSnapshot t"
      "fCmds t1 = (if w then (hd (fCmds t))\<lparr>fRunning := True, cmdConnId := fConnId conn\<rparr> #
                 tl (fCmds t) else fCmds t)"
      using push_one_outcome [of e conn t]
      by (auto simp: c1_def t1_def p0_def w_def wants_command_def outcome_def prod_eq_iff)
  qed
  obtain cs' ps where ih: "fst R = (seen @ [c1]) @ cs'" "length cs' = length rest"
    "length ps = length rest" "sent (snd (snd R)) = sent t1 @ concat ps"
    "\<forall>i < length rest. (cs' ! i, ps ! i) = outcome e t1 (takes_command e (fCmds t1) rest i) (rest ! i)"
    "\<forall>i < length rest. takes_command e (fCmds t1) rest i \<longrightarrow>
        fCmds (snd (snd R)) =
          (hd (fCmds t1))\<lparr>fRunning := True, cmdConnId := fConnId (rest ! i)\<rparr> # tl (fCmds t1)"
    "(\<forall>c \<in> set rest. wants_command e (fCmds t1) c = False) \<longrightarrow> fCmds (snd (snd R)) = fCmds t1"
    unfolding R_def using Cons.IH [of "seen @ [c1]" md1 t1] by blast
  have shift: "\<forall>k < length rest.
      outcome e t1 (takes_command e (fCmds t1) rest k) (rest ! k) =
      outcome e t (takes_command e (fCmds t) (conn # rest) (Suc k)) (rest ! k)"
  proof (cases w)
    case True
    then have "\<And>c. wants_command e (fCmds t1) c = False"
      using q1 by (simp add: wants_after_dispatch)
    then have "\<And>k. takes_command e (fCmds t1) rest k = False"
      by (simp add: takes_command_def)
    moreover have "\<And>k. takes_command e (fCmds t) (conn # rest) (Suc k) = False"
      using True by (simp add: takes_command_Cons w_def)
    ultimately show ?thesis by (simp add: outcome_no_command [OF ver])
  next
    case False
    then have "fCmds t1 = fCmds t" using q1 by simp
    moreover have "\<And>k. takes_command e (fCmds t) (conn # rest) (Suc k) = takes_command e (fCmds t) rest k"
      using False by (simp add: takes_command_Cons w_def)
    ultimately show ?thesis by (simp add: outcome_same [OF _ ver])
  qed
  have queue: "\<forall>i < length (conn # rest). takes_command e (fCmds t) (conn # rest) i \<longrightarrow>
        fCmds (snd (snd R)) =
          (hd (fCmds t))\<lparr>fRunning := True, cmdConnId := fConnId ((conn # rest) ! i)\<rparr> # tl (fCmds t)"
    and idle: "(\<forall>c \<in> set (conn # rest). wants_command e (fCmds t) c = False) \<longrightarrow>
        fCmds (snd (snd R)) = fCmds t"
  proof -
    show "\<forall>i < length (conn # rest). takes_command e (fCmds t) (conn # rest) i \<longrightarrow>
        fCmds (snd (snd R)) =
          (hd (fCmds t))\<lparr>fRunning := True, cmdConnId := fConnId ((conn # rest) ! i)\<rparr> # tl (fCmds t)"
    proof (cases w)
      case True
      then have "\<And>c. wants_command e (fCmds t1) c = False"
        using q1 by (simp add: wants_after_dispatch)
      with ih(7) have "fCmds (snd (snd R)) = fCmds t1" by simp
      with True q1 show ?thesis
        by (simp add: All_less_Suc2 takes_command_Cons w_def [symmetric])
    next
      case False
      then have "fCmds t1 = fCmds t" using q1 by simp
      with False ih(6) show ?thesis
        by (simp add: All_less_Suc2 takes_command_Cons w_def [symmetric])
    qed
    show "(\<forall>c \<in> set (conn # rest). wants_command e (fCmds t) c = False) \<longrightarrow>
        fCmds (snd (snd R)) = fCmds t"
      using ih(7) q1 by (auto simp: w_def)
  qed
  have each: "\<forall>i < length (conn # rest).
      ((c1 # cs') ! i, (p0 # ps) ! i) =
        outcome e t (takes_command e (fCmds t) (conn # rest) i) ((conn # rest) ! i)"
    using head ih(5) shift
    by (simp add: All_less_Suc2 takes_command_Cons w_def [symmetric])
  have "fst R = seen @ (c1 # cs') \<and> length (c1 # cs') = length (conn # rest) \<and>
     length (p0 # ps) = length (conn # rest) \<and>
     sent (snd (snd R)) = sent t @ concat (p0 # ps)"
    using ih(1-4) sent1 by simp
  with each queue idle show ?case
    unfolding unfold by blast
qed

section \<open>The branches of ProcessData\<close>

lemma find_conn_None: "find_conn connid cs = None \<longleftrightarrow> connid \<notin> fConnId ` set cs"
  by (induction cs) auto

lemma find_conn_Some: "find_conn c cs = Some i \<Longrightarrow> cs \<noteq> []"
  by (cases cs) auto

lemma on_conn_frame [simp]:
  "fCmds (on_conn i f s) = fCmds s" "fUpdatesLst (on_conn i f s) = fUpdatesLst s"
  "fired (on_conn i f s) = fired s" "released (on_conn i f s) = released s"
  "errors (on_conn i f s) = errors s" "fWindow (on_conn i f s) = fWindow s"
  "fSnapshotDelivered (on_conn i f s) = fSnapshotDelivered s"
  by (simp_all add: on_conn_def)

lemma SaveCreatedFile_frame [simp]:
  "fCmds (SaveCreatedFile e r s) = fCmds s" "fUpdatesLst (SaveCreatedFile e r s) = fUpdatesLst s"
  "fired (SaveCreatedFile e r s) = fired s" "fWebConn (SaveCreatedFile e r s) = fWebConn s"
  "fWindow (SaveCreatedFile e r s) = fWindow s"
  "fSnapshotDelivered (SaveCreatedFile e r s) = fSnapshotDelivered s"
  by (simp_all add: SaveCreatedFile_def split: option.splits)

lemma handle_objexec_frame [simp]:
  "fCmds (handle_objexec e a s) = fCmds s" "fUpdatesLst (handle_objexec e a s) = fUpdatesLst s"
  "fired (handle_objexec e a s) = fired s" "fWebConn (handle_objexec e a s) = fWebConn s"
  "fWindow (handle_objexec e a s) = fWindow s"
  "fSnapshotDelivered (handle_objexec e a s) = fSnapshotDelivered s"
  by (simp_all add: handle_objexec_def Let_def split: option.splits)

lemma CreateSnapshot_frame [simp]:
  "fCmds (snd (CreateSnapshot e s)) = fCmds s" "fUpdatesLst (snd (CreateSnapshot e s)) = fUpdatesLst s"
  "fired (snd (CreateSnapshot e s)) = fired s" "fWebConn (snd (CreateSnapshot e s)) = fWebConn s"
  "fWindow (snd (CreateSnapshot e s)) = fWindow s"
  "fSnapshotDelivered (snd (CreateSnapshot e s)) = fSnapshotDelivered s"
  "fHadWebConn (snd (CreateSnapshot e s)) = fHadWebConn s"
  by (simp_all add: CreateSnapshot_def)

lemma starts_with_append: "starts_with p s \<Longrightarrow> s = p @ drop (length p) s"
  by (metis append_take_drop_id starts_with_def)

lemma handle_msg_reply:
  assumes "starts_with ''REPLY:'' arg"
  shows "handle_msg e i c arg s =
     (case handle_reply e arg s of Inl err \<Rightarrow> Inl err | Inr s1 \<Rightarrow> Inr (True, s1))"
proof -
  from assms obtain body where arg: "arg = ''REPLY:'' @ body"
    using starts_with_append by blast
  show ?thesis unfolding arg by (simp add: handle_msg_def starts_with_def)
qed

lemma handle_reply_rejected:
  assumes "fCmds s = [] \<or> fRunning (hd (fCmds s)) = False \<or> fId (hd (fCmds s)) \<noteq> reply_ident arg"
  shows "\<exists>msg. handle_reply e arg s = Inr (s\<lparr>errors := errors s @ [msg]\<rparr>)"
  using assms by (auto simp: handle_reply_def Let_def)

lemma handle_reply_cmds:
  "handle_reply e arg s = Inr s' \<Longrightarrow> fCmds s' = fCmds s \<or> fCmds s' = tl (fCmds s)"
  by (auto simp: handle_reply_def FrontCommandReplied_def Let_def
           split: if_splits option.splits list.splits)

lemma handle_msg_cmds:
  "handle_msg e i c arg s = Inr (go_on, s') \<Longrightarrow>
     fCmds s' = fCmds s \<or> fCmds s' = tl (fCmds s) \<or>
     fCmds s' = filter (\<lambda>cmd. \<not> (c = 0 \<or> cmdConnId cmd = c)) (fCmds s)"
  by (auto simp: handle_msg_def CancelCommands_eq split: if_splits sum.splits dest: handle_reply_cmds)

section \<open>Single flight is kept\<close>

lemma in_set_tl: "x \<in> set (tl xs) \<Longrightarrow> x \<in> set xs"
  by (cases xs) auto

lemma set_tl_filter: "set (tl (filter P q)) \<subseteq> set (tl q)"
  by (induction q) (auto dest: in_set_tl)

lemma single_flight_filter: "single_flight q \<Longrightarrow> single_flight (filter P q)"
  using set_tl_filter [of P q] by (auto simp: single_flight_def)

lemma single_flight_snoc: "single_flight q \<Longrightarrow> fRunning cmd = False \<Longrightarrow> single_flight (q @ [cmd])"
  by (cases q) (auto simp: single_flight_def)

lemma single_flight_head: "single_flight q \<Longrightarrow> single_flight (c # tl q)"
  by (auto simp: single_flight_def)

lemma single_flight_tl: "single_flight q \<Longrightarrow> single_flight (tl q)"
  by (cases q) (auto simp: single_flight_def dest: in_set_tl)

lemma CheckDataToSend_single_flight:
  assumes "CheckDataToSend e s = Inr s'" and "single_flight (fCmds s)"
  shows "single_flight (fCmds s')"
  using CheckDataToSend_queue [OF assms(1)] assms(2) by (auto intro: single_flight_head)

lemma handle_msg_single_flight:
  "handle_msg e i c arg s = Inr (go_on, s') \<Longrightarrow> single_flight (fCmds s) \<Longrightarrow>
     single_flight (fCmds s')"
  by (auto dest!: handle_msg_cmds intro: single_flight_tl single_flight_filter)

lemma ProcessData_single_flight:
  assumes "ProcessData e c arg s = Inr s'" and "single_flight (fCmds s)"
  shows "single_flight (fCmds s')"
proof (cases "arg = ''CONN_READY''")
  case True
  with assms show ?thesis
    by (auto simp: ProcessData_def dest!: CheckDataToSend_single_flight)
next
  case False
  show ?thesis
  proof (cases "find_conn c (fWebConn s)")
    case None
    with assms False show ?thesis by (simp add: ProcessData_def)
  next
    case (Some i)
    with assms(1) False obtain go_on s1 where h: "handle_msg e i c arg s = Inr (go_on, s1)"
      and r: "(if go_on then CheckDataToSend e s1 else Inr s1) = Inr s'"
      by (auto simp: ProcessData_def split: sum.splits)
    from h assms(2) have "single_flight (fCmds s1)" by (rule handle_msg_single_flight)
    with r show ?thesis
      by (cases go_on) (auto dest: CheckDataToSend_single_flight)
  qed
qed

lemma DoWhenReady_single_flight:
  assumes "DoWhenReady e name arg async cb s = Inr s'" and "single_flight (fCmds s)"
  shows "single_flight (fCmds s')"
proof (cases "name = ''JSON'' \<or> MakeBatch e = 0")
  case True
  with assms show ?thesis
    by (auto simp: DoWhenReady_def Let_def CreateWindow_def split: if_splits)
next
  case False
  define cmd where "cmd = \<lparr>fId = to_string (unat (fCmdsCnt (CreateWindow s) + 1)), fName = name,
     fArg = arg, fRunning = False, fReady = False, fResult = False, fCallback = cb,
     cmdConnId = MakeBatch e\<rparr>"
  from assms(1) False have "CheckDataToSend e
      ((CreateWindow s)\<lparr>fCmdsCnt := fCmdsCnt (CreateWindow s) + 1,
         fCmds := fCmds (CreateWindow s) @ [cmd]\<rparr>) = Inr s'"
    by (simp add: DoWhenReady_def Let_def cmd_def)
  moreover have "single_flight (fCmds s @ [cmd])"
    using assms(2) by (rule single_flight_snoc) (simp add: cmd_def)
  ultimately show ?thesis
    by (auto simp: CreateWindow_def dest!: CheckDataToSend_single_flight split: if_splits)
qed

lemma CanvasUpdated_single_flight:
  assumes "CanvasUpdated e ver async cb s = Inr s'" and "single_flight (fCmds s)"
  shows "single_flight (fCmds s')"
  using assms
  by (auto simp: CanvasUpdated_def Let_def split: if_splits sum.splits option.splits
           dest!: CheckDataToSend_single_flight)

lemma step_single_flight:
  assumes "step ev s = Inr s'" and "single_flight (fCmds s)"
  shows "single_flight (fCmds s')"
proof (cases ev)
  case (EvCanvasUpdated e ver async cb)
  with assms show ?thesis by (auto dest: CanvasUpdated_single_flight)
next
  case (EvDoWhenReady e name arg async cb)
  with assms show ?thesis by (auto dest: DoWhenReady_single_flight)
next
  case (EvWaited name arg res)
  with assms show ?thesis by (auto simp: DoWhenReady_waited_def)
next
  case (EvAddPanel e)
  with assms show ?thesis
    by (auto simp: AddPanel_def split: if_splits sum.splits dest: DoWhenReady_single_flight)
next
  case (EvNewDisplay wher)
  with assms show ?thesis by (auto simp: NewDisplay_def CreateWindow_def)
next
  case (EvProcessData e c arg)
  with assms show ?thesis by (auto dest: ProcessData_single_flight)
qed

lemma run_single_flight:
  "run evs s = Inr s' \<Longrightarrow> single_flight (fCmds s) \<Longrightarrow> single_flight (fCmds s')"
proof (induction evs arbitrary: s)
  case Nil
  then show ?case by simp
next
  case (Cons ev evs)
  then show ?case
    by (auto split: sum.splits dest: step_single_flight)
qed

lemma single_flight_count: "single_flight q \<Longrightarrow> length (filter fRunning q) \<le> 1"
  by (cases q) (auto simp: single_flight_def filter_empty_conv)

lemma single_flight_index:
  "single_flight q \<Longrightarrow> i < length q \<Longrightarrow> fRunning (q ! i) \<Longrightarrow> i = 0"
  by (cases q; cases i) (auto simp: single_flight_def)

section \<open>Callbacks handed in, held and invoked\<close>

lemma called_invoke: "image_mset fst (mset (invoke cb res)) = opt_mset cb"
  by (simp add: invoke_def opt_mset_def split: option.splits)

lemma sum_filter_split:
  "(\<Sum>x\<leftarrow>filter P xs. (f x :: 'b multiset)) + (\<Sum>x\<leftarrow>filter (\<lambda>x. \<not> P x) xs. f x) = (\<Sum>x\<leftarrow>xs. f x)"
  by (induction xs) (auto simp: ac_simps)

lemma called_cancelled:
  "image_mset fst (mset (concat (map (\<lambda>cmd. invoke (fCallback cmd) False) xs))) =
     (\<Sum>cmd\<leftarrow>xs. opt_mset (fCallback cmd))"
  by (induction xs) (auto simp: called_invoke)

lemma CancelCommands_accounted:
  "called (CancelCommands c s) + held (CancelCommands c s) = called s + held s"
proof -
  have "(\<Sum>cmd\<leftarrow>fCmds s. opt_mset (fCallback cmd)) =
      (\<Sum>cmd\<leftarrow>filter (\<lambda>cmd. c = 0 \<or> cmdConnId cmd = c) (fCmds s). opt_mset (fCallback cmd)) +
      (\<Sum>cmd\<leftarrow>filter (\<lambda>cmd. \<not> (c = 0 \<or> cmdConnId cmd = c)) (fCmds s). opt_mset (fCallback cmd))"
    by (rule sum_filter_split [symmetric])
  then show ?thesis
    by (simp add: CancelCommands_eq called_def held_def called_cancelled)
qed

lemma deliver_loop_accounted:
  "image_mset fst (mset (snd (deliver_loop v us kept fr))) +
     (\<Sum>u\<leftarrow>fst (deliver_loop v us kept fr). opt_mset (updCallback u)) =
   image_mset fst (mset fr) + (\<Sum>u\<leftarrow>kept. opt_mset (updCallback u)) +
     (\<Sum>u\<leftarrow>us. opt_mset (updCallback u))"
  by (induction us arbitrary: kept fr) (auto simp: called_invoke)

lemma CancelUpdates_loop_Inr:
  "CancelUpdates_loop us fr = Inr fr' \<Longrightarrow>
     image_mset fst (mset fr') = image_mset fst (mset fr) + (\<Sum>u\<leftarrow>us. opt_mset (updCallback u))"
  by (induction us arbitrary: fr) (auto simp: opt_mset_def split: option.splits)

lemma CancelUpdates_loop_armed:
  "\<forall>u\<in>set us. updCallback u \<noteq> None \<Longrightarrow> \<exists>fr'. CancelUpdates_loop us fr = Inr fr'"
  by (induction us arbitrary: fr) auto

lemma send_loop_callbacks:
  "(\<Sum>cmd\<leftarrow>fCmds (snd (snd (send_loop e cs seen md s))). opt_mset (fCallback cmd)) =
     (\<Sum>cmd\<leftarrow>fCmds s. opt_mset (fCallback cmd))"
  using send_loop_cmds [of e cs seen md s] by (cases "fCmds s") auto

lemma CheckDataToSend_accounted:
  assumes "CheckDataToSend e s = Inr s'"
  shows "called s' + held s' = called s + held s"
proof -
  have q: "(\<Sum>cmd\<leftarrow>fCmds s'. opt_mset (fCallback cmd)) = (\<Sum>cmd\<leftarrow>fCmds s. opt_mset (fCallback cmd))"
    unfolding CheckDataToSend_cmds [OF assms] by (rule send_loop_callbacks)
  from CheckDataToSend_updates [OF assms] show ?thesis
  proof (elim disjE conjE)
    assume "CancelUpdates_loop (fUpdatesLst s) (fired s) = Inr (fired s')" "fUpdatesLst s' = []"
    then show ?thesis
      using q by (simp add: called_def held_def CancelUpdates_loop_Inr)
  next
    assume "fUpdatesLst s' = fst (deliver_loop (scan_delivered (fWebConn s) 0) (fUpdatesLst s) [] (fired s))"
      "fired s' = snd (deliver_loop (scan_delivered (fWebConn s) 0) (fUpdatesLst s) [] (fired s))"
    then show ?thesis
      using q deliver_loop_accounted [of "scan_delivered (fWebConn s) 0" "fUpdatesLst s" "[]" "fired s"]
      by (simp add: called_def held_def ac_simps)
  next
    assume "fUpdatesLst s' = fUpdatesLst s" "fired s' = fired s"
    then show ?thesis using q by (simp add: called_def held_def)
  qed
qed

lemma CheckDataToSend_armed:
  assumes "CheckDataToSend e s = Inr s'" and "updates_armed s"
  shows "updates_armed s'"
  using assms(2) CheckDataToSend_updates_subset [OF assms(1)]
  unfolding updates_armed_def by blast

lemma FrontCommandReplied_accounted:
  assumes "FrontCommandReplied e reply s = Inr s'"
  shows "called s' + held s' = called s + held s \<and> fUpdatesLst s' = fUpdatesLst s"
  using assms
  by (auto simp: FrontCommandReplied_def Let_def called_def held_def called_invoke
           split: list.splits)

lemma handle_reply_accounted:
  assumes "handle_reply e arg s = Inr s'"
  shows "called s' + held s' = called s + held s \<and> fUpdatesLst s' = fUpdatesLst s"
proof (cases "fCmds s = [] \<or> fRunning (hd (fCmds s)) = False \<or> fId (hd (fCmds s)) \<noteq> reply_ident arg")
  case True
  then obtain msg where "handle_reply e arg s = Inr (s\<lparr>errors := errors s @ [msg]\<rparr>)"
    using handle_reply_rejected by blast
  with assms show ?thesis by (auto simp: called_def held_def)
next
  case False
  with assms obtain r where "FrontCommandReplied e r s = Inr s'"
    by (auto simp: handle_reply_def Let_def split: option.splits)
  then show ?thesis by (rule FrontCommandReplied_accounted)
qed

lemma handle_msg_accounted:
  assumes "handle_msg e i c arg s = Inr (go_on, s')"
  shows "called s' + held s' = called s + held s \<and> fUpdatesLst s' = fUpdatesLst s"
proof (cases "arg = ''CONN_CLOSED''")
  case True
  with assms have "s' = CancelCommands c (s\<lparr>fWebConn := take i (fWebConn s) @ drop (Suc i) (fWebConn s)\<rparr>)"
    by (simp add: handle_msg_def)
  then show ?thesis
    using CancelCommands_accounted [of c "s\<lparr>fWebConn := take i (fWebConn s) @ drop (Suc i) (fWebConn s)\<rparr>"]
    by (simp add: called_def held_def)
next
  case False
  show ?thesis
  proof (cases "starts_with ''REPLY:'' arg")
    case True
    with assms have "handle_reply e arg s = Inr s'"
      by (simp add: handle_msg_reply split: sum.splits)
    then show ?thesis by (rule handle_reply_accounted)
  next
    case no_reply: False
    with assms False show ?thesis
      by (auto simp: handle_msg_def called_def held_def split: if_splits sum.splits)
  qed
qed

lemma ProcessData_accounted:
  assumes "ProcessData e c arg s = Inr s'"
  shows "called s' + held s' = called s + held s \<and> (updates_armed s \<longrightarrow> updates_armed s')"
proof (cases "arg = ''CONN_READY''")
  case True
  with assms have "CheckDataToSend e (s\<lparr>fWebConn := fWebConn s @ [new_conn c], fHadWebConn := True\<rparr>) = Inr s'"
    by (simp add: ProcessData_def)
  from CheckDataToSend_accounted [OF this] CheckDataToSend_armed [OF this] show ?thesis
    by (simp add: called_def held_def updates_armed_def)
next
  case False
  show ?thesis
  proof (cases "find_conn c (fWebConn s)")
    case None
    with assms False show ?thesis by (simp add: ProcessData_def)
  next
    case (Some i)
    with assms(1) False obtain go_on s1 where h: "handle_msg e i c arg s = Inr (go_on, s1)"
      and r: "(if go_on then CheckDataToSend e s1 else Inr s1) = Inr s'"
      by (auto simp: ProcessData_def split: sum.splits)
    from handle_msg_accounted [OF h] have a: "called s1 + held s1 = called s + held s"
      and u: "fUpdatesLst s1 = fUpdatesLst s" by simp_all
    show ?thesis
    proof (cases go_on)
      case True
      with r have c: "CheckDataToSend e s1 = Inr s'" by simp
      from CheckDataToSend_accounted [OF c] CheckDataToSend_armed [OF c] a u show ?thesis
        by (simp add: updates_armed_def)
    next
      case False
      with r a u show ?thesis by (simp add: updates_armed_def)
    qed
  qed
qed

lemma CanvasUpdated_accounted:
  assumes "CanvasUpdated e ver async cb s = Inr s'"
  shows "called s' + held s' = called s + held s + opt_mset cb \<and>
         (updates_armed s \<longrightarrow> updates_armed s')"
proof (cases "ver \<noteq> 0 \<and> fSnapshotDelivered s \<noteq> 0 \<and> ver \<le> fSnapshotDelivered s")
  case True
  with assms show ?thesis
    by (auto simp: CanvasUpdated_def called_def held_def called_invoke updates_armed_def)
next
  case False
  define s2 where "s2 = (snd (CreateSnapshot e (s\<lparr>fSnapshotVersion := ver\<rparr>)))
      \<lparr>fSnapshot := fst (CreateSnapshot e (s\<lparr>fSnapshotVersion := ver\<rparr>))\<rparr>"
  have s2: "fired s2 = fired s" "fCmds s2 = fCmds s" "fUpdatesLst s2 = fUpdatesLst s"
    by (simp_all add: s2_def)
  show ?thesis
  proof (cases "fWindow s2 \<and> IsShown e")
    case shown: True
    with assms False obtain s3 where c: "CheckDataToSend e s2 = Inr s3"
      and s': "s' = (case cb of None \<Rightarrow> s3
          | Some f \<Rightarrow> s3\<lparr>fUpdatesLst := fUpdatesLst s3 @ [\<lparr>fVersion = ver, updCallback = Some f\<rparr>]\<rparr>)"
      by (auto simp: CanvasUpdated_def Let_def s2_def split: sum.splits)
    from CheckDataToSend_accounted [OF c] s2 have a: "called s3 + held s3 = called s + held s"
      by (simp add: called_def held_def)
    from CheckDataToSend_armed [OF c] s2 have u: "updates_armed s \<longrightarrow> updates_armed s3"
      by (simp add: updates_armed_def)
    from a u s' show ?thesis
      by (cases cb) (auto simp: called_def held_def opt_mset_def updates_armed_def)
  next
    case hidden: False
    with assms False have "s' = s2\<lparr>fired := fired s2 @ invoke cb False\<rparr>"
      by (auto simp: CanvasUpdated_def Let_def s2_def)
    with s2 show ?thesis
      by (simp add: called_def held_def called_invoke updates_armed_def)
  qed
qed

lemma DoWhenReady_accounted:
  assumes "DoWhenReady e name arg async cb s = Inr s'"
  shows "called s' + held s' = called s + held s + (if name = ''JSON'' then {#} else opt_mset cb) \<and>
         (updates_armed s \<longrightarrow> updates_armed s')"
proof (cases "name = ''JSON'' \<or> MakeBatch e = 0")
  case True
  with assms show ?thesis
    by (auto simp: DoWhenReady_def Let_def CreateWindow_def called_def held_def called_invoke
          updates_armed_def split: if_splits)
next
  case False
  define cmd where "cmd = \<lparr>fId = to_string (unat (fCmdsCnt (CreateWindow s) + 1)), fName = name,
     fArg = arg, fRunning = False, fReady = False, fResult = False, fCallback = cb,
     cmdConnId = MakeBatch e\<rparr>"
  define s2 where "s2 = (CreateWindow s)\<lparr>fCmdsCnt := fCmdsCnt (CreateWindow s) + 1,
         fCmds := fCmds (CreateWindow s) @ [cmd]\<rparr>"
  from assms(1) False have c: "CheckDataToSend e s2 = Inr s'"
    by (simp add: DoWhenReady_def Let_def cmd_def s2_def)
  have s2: "fired s2 = fired s" "fCmds s2 = fCmds s @ [cmd]" "fUpdatesLst s2 = fUpdatesLst s"
    by (simp_all add: s2_def CreateWindow_def)
  from CheckDataToSend_accounted [OF c] CheckDataToSend_armed [OF c] s2 False show ?thesis
    by (simp add: called_def held_def updates_armed_def cmd_def)
qed

lemma step_accounted:
  assumes "step ev s = Inr s'"
  shows "called s' + held s' = called s + held s + handed ev \<and>
         (updates_armed s \<longrightarrow> updates_armed s')"
proof (cases ev)
  case (EvCanvasUpdated e ver async cb)
  with assms show ?thesis using CanvasUpdated_accounted by simp
next
  case (EvDoWhenReady e name arg async cb)
  with assms show ?thesis using DoWhenReady_accounted by simp
next
  case (EvWaited name arg res)
  with assms show ?thesis
    by (auto simp: DoWhenReady_waited_def called_def held_def updates_armed_def split: if_splits)
next
  case (EvAddPanel e)
  show ?thesis
  proof (cases "fWindow s \<and> IsShown e \<and> RelativeAddr e \<noteq> []")
    case True
    with assms EvAddPanel have
      "DoWhenReady e (''ADDPANEL:'' @ RelativeAddr e) ''AddPanel'' True None s = Inr s'"
      by (auto simp: AddPanel_def split: sum.splits)
    from DoWhenReady_accounted [OF this] EvAddPanel show ?thesis
      by (simp add: opt_mset_def)
  next
    case False
    with assms EvAddPanel show ?thesis
      by (auto simp: AddPanel_def called_def held_def updates_armed_def split: if_splits)
  qed
next
  case (EvNewDisplay wher)
  with assms show ?thesis
    by (auto simp: NewDisplay_def CreateWindow_def called_def held_def updates_armed_def
          split: if_splits)
next
  case (EvProcessData e c arg)
  with assms show ?thesis using ProcessData_accounted by simp
qed

lemma run_accounted:
  "run evs s = Inr s' \<Longrightarrow>
     called s' + held s' = called s + held s + (\<Sum>ev\<leftarrow>evs. handed ev) \<and>
     (updates_armed s \<longrightarrow> updates_armed s')"
proof (induction evs arbitrary: s)
  case Nil
  then show ?case by simp
next
  case (Cons ev evs)
  then obtain s1 where st: "step ev s = Inr s1" and r: "run evs s1 = Inr s'"
    by (auto split: sum.splits)
  from step_accounted [OF st] Cons.IH [OF r] show ?case
    by (simp add: ac_simps)
qed

lemma destructor_accounted:
  assumes "updates_armed s"
  shows "\<exists>s'. destructor s = Inr s' \<and> fCmds s' = [] \<and> fUpdatesLst s' = [] \<and>
     called s' = called s + held s"
proof -
  define s1 where "s1 = CancelCommands 0 s"
  have q: "fCmds s1 = []" and u: "fUpdatesLst s1 = fUpdatesLst s"
    by (simp_all add: s1_def CancelCommands_eq)
  from CancelCommands_accounted [of 0 s] q u
  have a: "called s1 + (\<Sum>u\<leftarrow>fUpdatesLst s. opt_mset (updCallback u)) = called s + held s"
    by (simp add: s1_def held_def)
  from assms u obtain fr where l: "CancelUpdates_loop (fUpdatesLst s1) (fired s1) = Inr fr"
    using CancelUpdates_loop_armed [of "fUpdatesLst s1" "fired s1"]
    by (auto simp: updates_armed_def)
  from CancelUpdates_loop_Inr [OF l] a u
  have "image_mset fst (mset fr) = called s + held s"
    by (simp add: called_def)
  with l q show ?thesis
    by (auto simp: destructor_def s1_def [symmetric] CancelUpdates_def called_def)
qed

section \<open>Settled painters\<close>

lemma scan_delivered_map:
  "map fDelivered xs = map fDelivered ys \<Longrightarrow> scan_delivered xs md = scan_delivered ys md"
proof (induction xs arbitrary: ys md)
  case Nil
  then show ?case by simp
next
  case (Cons x xs)
  then obtain y ys' where "ys = y # ys'" "fDelivered x = fDelivered y"
    "map fDelivered xs = map fDelivered ys'"
    by (cases ys) auto
  with Cons.IH [of ys'] show ?case by simp
qed

lemma CheckDataToSend_settles:
  assumes "CheckDataToSend e s = Inr s'"
  shows "fSnapshotDelivered s' = scan_delivered (fWebConn s') 0"
proof -
  have d: "map fDelivered (fWebConn s') = map fDelivered (fWebConn s)"
    using send_loop_conns [of e "fWebConn s" "[]" 0 s] CheckDataToSend_conns [OF assms] by simp
  have "fSnapshotDelivered s' = scan_delivered (fWebConn s) 0"
    using assms
    by (auto simp: CheckDataToSend_eq Let_def CancelUpdates_def split: if_splits sum.splits)
  with scan_delivered_map [OF d] show ?thesis by simp
qed

lemma CheckDataToSend_registry:
  assumes "CheckDataToSend e s = Inr s'"
  shows "fWindow s' = fWindow s" and "fHadWebConn s' = fHadWebConn s"
    and "length (fWebConn s') = length (fWebConn s)" and "fWebConn s = [] \<or> fWindow s"
proof -
  show "length (fWebConn s') = length (fWebConn s)"
    using send_loop_conns [of e "fWebConn s" "[]" 0 s] CheckDataToSend_conns [OF assms] by simp
  show "fWindow s' = fWindow s" "fHadWebConn s' = fHadWebConn s" "fWebConn s = [] \<or> fWindow s"
    using assms
    by (auto simp: CheckDataToSend_eq Let_def CancelUpdates_def split: if_splits sum.splits)
qed

lemma CheckDataToSend_establishes:
  assumes "CheckDataToSend e s = Inr s'" and "fWebConn s = [] \<or> fHadWebConn s"
  shows "settled s'"
  using CheckDataToSend_settles [OF assms(1)] CheckDataToSend_registry [OF assms(1)] assms(2)
  by (auto simp: settled_def)

lemma CheckDataToSend_settled:
  assumes "fWebConn s \<noteq> []" and "fWindow s"
    and "fSnapshotDelivered s = scan_delivered (fWebConn s) 0"
  shows "\<exists>s'. CheckDataToSend e s = Inr s' \<and> fired s' = fired s \<and>
     fUpdatesLst s' = fUpdatesLst s \<and> errors s' = errors s \<and> released s' = released s"
  using assms by (simp add: CheckDataToSend_eq Let_def)

lemma handle_reply_registry:
  "handle_reply e arg s = Inr s' \<Longrightarrow>
     fWebConn s' = fWebConn s \<and> fWindow s' = fWindow s \<and> fHadWebConn s' = fHadWebConn s"
  by (auto simp: handle_reply_def FrontCommandReplied_def Let_def
           split: if_splits option.splits list.splits)

lemma handle_msg_registry:
  assumes "handle_msg e i c arg s = Inr (go_on, s')"
  shows "fWindow s' = fWindow s \<and> fHadWebConn s' = fHadWebConn s \<and>
     (fWebConn s = [] \<longrightarrow> fWebConn s' = []) \<and>
     (go_on = False \<longrightarrow> fWebConn s' = fWebConn s \<and> fSnapshotDelivered s' = fSnapshotDelivered s)"
proof (cases "starts_with ''REPLY:'' arg")
  case True
  with assms have "handle_reply e arg s = Inr s'" and "go_on"
    by (auto simp: handle_msg_reply split: sum.splits)
  with handle_reply_registry show ?thesis by auto
next
  case False
  with assms show ?thesis
    by (auto simp: handle_msg_def CancelCommands_eq on_conn_def SaveCreatedFile_def
          handle_objexec_def Let_def split: if_splits sum.splits option.splits)
qed

lemma ProcessData_settled:
  assumes "ProcessData e c arg s = Inr s'" and "settled s"
  shows "settled s'"
proof (cases "arg = ''CONN_READY''")
  case True
  with assms(1) have "CheckDataToSend e (s\<lparr>fWebConn := fWebConn s @ [new_conn c], fHadWebConn := True\<rparr>) = Inr s'"
    by (simp add: ProcessData_def)
  then show ?thesis by (rule CheckDataToSend_establishes) simp
next
  case False
  show ?thesis
  proof (cases "find_conn c (fWebConn s)")
    case None
    with assms False show ?thesis by (simp add: ProcessData_def)
  next
    case (Some i)
    with assms(1) False obtain go_on s1 where h: "handle_msg e i c arg s = Inr (go_on, s1)"
      and r: "(if go_on then CheckDataToSend e s1 else Inr s1) = Inr s'"
      by (auto simp: ProcessData_def split: sum.splits)
    from find_conn_Some [OF Some] assms(2) have w: "fWindow s" "fHadWebConn s"
      by (auto simp: settled_def)
    show ?thesis
    proof (cases go_on)
      case True
      with r have "CheckDataToSend e s1 = Inr s'" by simp
      then show ?thesis
        by (rule CheckDataToSend_establishes) (use handle_msg_registry [OF h] w in simp)
    next
      case False
      with r handle_msg_registry [OF h] assms(2) show ?thesis
        by (auto simp: settled_def)
    qed
  qed
qed

lemma CanvasUpdated_settled:
  assumes "CanvasUpdated e ver async cb s = Inr s'" and "settled s"
  shows "settled s'"
proof (cases "ver \<noteq> 0 \<and> fSnapshotDelivered s \<noteq> 0 \<and> ver \<le> fSnapshotDelivered s")
  case True
  with assms show ?thesis by (auto simp: CanvasUpdated_def settled_def)
next
  case False
  define s2 where "s2 = (snd (CreateSnapshot e (s\<lparr>fSnapshotVersion := ver\<rparr>)))
      \<lparr>fSnapshot := fst (CreateSnapshot e (s\<lparr>fSnapshotVersion := ver\<rparr>))\<rparr>"
  have s2: "fWebConn s2 = fWebConn s" "fWindow s2 = fWindow s" "fHadWebConn s2 = fHadWebConn s"
    "fSnapshotDelivered s2 = fSnapshotDelivered s"
    by (simp_all add: s2_def)
  show ?thesis
  proof (cases "fWindow s2 \<and> IsShown e")
    case shown: True
    with assms False obtain s3 where c: "CheckDataToSend e s2 = Inr s3"
      and s': "s' = (case cb of None \<Rightarrow> s3
          | Some f \<Rightarrow> s3\<lparr>fUpdatesLst := fUpdatesLst s3 @ [\<lparr>fVersion = ver, updCallback = Some f\<rparr>]\<rparr>)"
      by (auto simp: CanvasUpdated_def Let_def s2_def split: sum.splits)
    have "settled s3"
      using c by (rule CheckDataToSend_establishes) (use assms(2) s2 in \<open>auto simp: settled_def\<close>)
    with s' show ?thesis by (cases cb) (auto simp: settled_def)
  next
    case hidden: False
    with assms False have "s' = s2\<lparr>fired := fired s2 @ invoke cb False\<rparr>"
      by (auto simp: CanvasUpdated_def Let_def s2_def)
    with s2 assms(2) show ?thesis by (simp add: settled_def)
  qed
qed

lemma DoWhenReady_settled:
  assumes "DoWhenReady e name arg async cb s = Inr s'" and "settled s"
  shows "settled s'"
proof (cases "name = ''JSON'' \<or> MakeBatch e = 0")
  case True
  with assms show ?thesis
    by (auto simp: DoWhenReady_def Let_def CreateWindow_def settled_def split: if_splits)
next
  case False
  define cmd where "cmd = \<lparr>fId = to_string (unat (fCmdsCnt (CreateWindow s) + 1)), fName = name,
     fArg = arg, fRunning = False, fReady = False, fResult = False, fCallback = cb,
     cmdConnId = MakeBatch e\<rparr>"
  define s2 where "s2 = (CreateWindow s)\<lparr>fCmdsCnt := fCmdsCnt (CreateWindow s) + 1,
         fCmds := fCmds (CreateWindow s) @ [cmd]\<rparr>"
  from assms(1) False have c: "CheckDataToSend e s2 = Inr s'"
    by (simp add: DoWhenReady_def Let_def cmd_def s2_def)
  have "fWebConn s2 = [] \<or> fHadWebConn s2"
    using assms(2) by (auto simp: s2_def CreateWindow_def settled_def)
  with c show ?thesis by (rule CheckDataToSend_establishes)
qed

lemma step_settled:
  assumes "step ev s = Inr s'" and "settled s"
  shows "settled s'"
proof (cases ev)
  case (EvCanvasUpdated e ver async cb)
  with assms show ?thesis by (auto dest: CanvasUpdated_settled)
next
  case (EvDoWhenReady e name arg async cb)
  with assms show ?thesis by (auto dest: DoWhenReady_settled)
next
  case (EvWaited name arg res)
  with assms show ?thesis by (auto simp: DoWhenReady_waited_def settled_def split: if_splits)
next
  case (EvAddPanel e)
  with assms show ?thesis
    by (auto simp: AddPanel_def settled_def [of "s\<lparr>errors := _\<rparr>"] split: if_splits sum.splits
          dest: DoWhenReady_settled) (auto simp: settled_def)
next
  case (EvNewDisplay wher)
  with assms show ?thesis
    by (auto simp: NewDisplay_def CreateWindow_def settled_def split: if_splits)
next
  case (EvProcessData e c arg)
  with assms show ?thesis by (auto dest: ProcessData_settled)
qed

lemma run_settled: "run evs s = Inr s' \<Longrightarrow> settled s \<Longrightarrow> settled s'"
proof (induction evs arbitrary: s)
  case Nil
  then show ?case by simp
next
  case (Cons ev evs)
  then show ?case by (auto split: sum.splits dest: step_settled)
qed

lemma reachable_settled: "run evs init = Inr s \<Longrightarrow> settled s"
  by (erule run_settled) (simp add: settled_def init_def)

section \<open>Painters without a viewer\<close>

lemma CheckDataToSend_no_viewer:
  assumes "fWebConn t = []" and "fSnapshotDelivered t = 0"
  shows "CheckDataToSend e t = Inr t"
proof -
  have "t\<lparr>fWebConn := fWebConn t\<rparr> = t" by simp
  with assms have "t\<lparr>fWebConn := []\<rparr> = t" by simp
  with assms show ?thesis by (simp add: CheckDataToSend_def)
qed

lemma CanvasUpdated_quiet:
  assumes "no_viewer t" and "CanvasUpdated e ver async cb t = Inr t'"
  shows "no_viewer t' \<and>
     (\<exists>more extra. fUpdatesLst t' = fUpdatesLst t @ more \<and> fired t' = fired t @ extra \<and>
        (\<forall>x \<in> set extra. snd x = False \<and> fst x \<in># opt_mset cb))"
proof -
  define s2 where "s2 = (snd (CreateSnapshot e (t\<lparr>fSnapshotVersion := ver\<rparr>)))
      \<lparr>fSnapshot := fst (CreateSnapshot e (t\<lparr>fSnapshotVersion := ver\<rparr>))\<rparr>"
  have s2: "no_viewer s2" "fUpdatesLst s2 = fUpdatesLst t" "fired s2 = fired t"
    using assms(1) by (simp_all add: s2_def no_viewer_def)
  then have c: "CheckDataToSend e s2 = Inr s2"
    by (simp add: CheckDataToSend_no_viewer no_viewer_def)
  from assms(1) have "\<not> (ver \<noteq> 0 \<and> fSnapshotDelivered t \<noteq> 0 \<and> ver \<le> fSnapshotDelivered t)"
    by (simp add: no_viewer_def)
  with assms(2) have "t' = (if fWindow s2 \<and> IsShown e
       then (case cb of None \<Rightarrow> s2
             | Some f \<Rightarrow> s2\<lparr>fUpdatesLst := fUpdatesLst s2 @ [\<lparr>fVersion = ver, updCallback = Some f\<rparr>]\<rparr>)
       else s2\<lparr>fired := fired s2 @ invoke cb False\<rparr>)"
    unfolding CanvasUpdated_def Let_def s2_def [symmetric] using c
    by (auto split: if_splits)
  with s2 show ?thesis
    by (auto simp: no_viewer_def invoke_def opt_mset_def split: option.splits)
qed

lemma DoWhenReady_quiet:
  assumes "no_viewer t" and "DoWhenReady e name arg async cb t = Inr t'"
  shows "no_viewer t' \<and>
     (\<exists>more extra. fUpdatesLst t' = fUpdatesLst t @ more \<and> fired t' = fired t @ extra \<and>
        (\<forall>x \<in> set extra. snd x = False \<and>
           fst x \<in># (if name = ''JSON'' then {#} else opt_mset cb)))"
proof (cases "name = ''JSON''")
  case True
  with assms show ?thesis by (auto simp: DoWhenReady_def no_viewer_def)
next
  case False
  define s1 where "s1 = CreateWindow t"
  have s1: "no_viewer s1" "fUpdatesLst s1 = fUpdatesLst t" "fired s1 = fired t"
    using assms(1) by (simp_all add: s1_def CreateWindow_def no_viewer_def)
  show ?thesis
  proof (cases "MakeBatch e = 0")
    case True
    with assms(2) False have "t' = s1\<lparr>fired := fired s1 @ invoke cb False\<rparr>"
      by (simp add: DoWhenReady_def Let_def s1_def)
    with s1 False show ?thesis
      by (auto simp: no_viewer_def invoke_def opt_mset_def split: option.splits)
  next
    case nz: False
    define s2 where "s2 = s1\<lparr>fCmdsCnt := fCmdsCnt s1 + 1, fCmds := fCmds s1 @
        [\<lparr>fId = to_string (unat (fCmdsCnt s1 + 1)), fName = name, fArg = arg,
          fRunning = False, fReady = False, fResult = False,
          fCallback = cb, cmdConnId = MakeBatch e\<rparr>]\<rparr>"
    have s2: "no_viewer s2" "fUpdatesLst s2 = fUpdatesLst t" "fired s2 = fired t"
      using s1 by (simp_all add: s2_def no_viewer_def)
    then have "CheckDataToSend e s2 = Inr s2"
      by (simp add: CheckDataToSend_no_viewer no_viewer_def)
    with assms(2) False nz have "t' = s2"
      by (simp add: DoWhenReady_def Let_def s1_def [symmetric] s2_def [symmetric])
    with s2 show ?thesis by simp
  qed
qed

lemma quiet_step:
  assumes "no_viewer t" and "connects ev = False" and "step ev t = Inr t'"
  shows "no_viewer t' \<and>
     (\<exists>more extra. fUpdatesLst t' = fUpdatesLst t @ more \<and> fired t' = fired t @ extra \<and>
        (\<forall>x \<in> set extra. snd x = False \<and> fst x \<in># handed ev))"
proof (cases ev)
  case (EvCanvasUpdated e ver async cb)
  with assms CanvasUpdated_quiet [of t e ver async cb t'] show ?thesis by simp
next
  case (EvDoWhenReady e name arg async cb)
  with assms DoWhenReady_quiet [of t e name arg async cb t'] show ?thesis by simp
next
  case (EvWaited name arg res)
  with assms show ?thesis by (auto simp: DoWhenReady_waited_def no_viewer_def split: if_splits)
next
  case (EvAddPanel e)
  show ?thesis
  proof (cases "fWindow t = False \<or> IsShown e = False \<or> RelativeAddr e = []")
    case True
    with assms EvAddPanel show ?thesis
      by (auto simp: AddPanel_def no_viewer_def split: if_splits)
  next
    case False
    with assms(3) EvAddPanel
    have "DoWhenReady e (''ADDPANEL:'' @ RelativeAddr e) ''AddPanel'' True None t = Inr t'"
      by (auto simp: AddPanel_def split: sum.splits)
    from DoWhenReady_quiet [OF assms(1) this] EvAddPanel show ?thesis
      by (auto simp: opt_mset_def)
  qed
next
  case (EvNewDisplay wher)
  with assms show ?thesis
    by (auto simp: NewDisplay_def CreateWindow_def no_viewer_def split: if_splits)
next
  case (EvProcessData e connid arg)
  with assms show ?thesis by (auto simp: ProcessData_def no_viewer_def)
qed

lemma quiet_run:
  assumes "no_viewer t" and "list_all (\<lambda>ev. connects ev = False) evs" and "run evs t = Inr t'"
  shows "no_viewer t' \<and>
     (\<exists>more extra. fUpdatesLst t' = fUpdatesLst t @ more \<and> fired t' = fired t @ extra \<and>
        (\<forall>x \<in> set extra. snd x = False \<and> fst x \<in># (\<Sum>ev\<leftarrow>evs. handed ev)))"
  using assms
proof (induction evs arbitrary: t)
  case Nil
  then show ?case by simp
next
  case (Cons ev evs)
  from Cons.prems(3) obtain t1 where st: "step ev t = Inr t1" and r: "run evs t1 = Inr t'"
    by (auto split: sum.splits)
  from Cons.prems(2) have q: "connects ev = False" "list_all (\<lambda>ev. connects ev = False) evs"
    by simp_all
  from quiet_step [OF Cons.prems(1) q(1) st] obtain more1 extra1 where
    a: "no_viewer t1" "fUpdatesLst t1 = fUpdatesLst t @ more1" "fired t1 = fired t @ extra1"
       "\<forall>x \<in> set extra1. snd x = False \<and> fst x \<in># handed ev"
    by blast
  from Cons.IH [OF a(1) q(2) r] obtain more2 extra2 where
    b: "no_viewer t'" "fUpdatesLst t' = fUpdatesLst t1 @ more2" "fired t' = fired t1 @ extra2"
       "\<forall>x \<in> set extra2. snd x = False \<and> fst x \<in># (\<Sum>ev\<leftarrow>evs. handed ev)"
    by blast
  have "fUpdatesLst t' = fUpdatesLst t @ (more1 @ more2)" "fired t' = fired t @ (extra1 @ extra2)"
    "\<forall>x \<in> set (extra1 @ extra2). snd x = False \<and> fst x \<in># (\<Sum>ev\<leftarrow>ev # evs. handed ev)"
    using a b by auto
  with b(1) show ?case by blast
qed

section \<open>What each path invokes\<close>

lemma CancelUpdates_loop_fired:
  "CancelUpdates_loop us fr = Inr fr' \<Longrightarrow>
     fr' = fr @ concat (map (\<lambda>u. invoke (updCallback u) False) us)"
proof (induction us arbitrary: fr)
  case Nil
  then show ?case by simp
next
  case (Cons u rest)
  then obtain f where f: "updCallback u = Some f"
    and l: "CancelUpdates_loop rest (fr @ [(f, False)]) = Inr fr'"
    by (auto split: option.splits)
  from Cons.IH [OF l] f show ?case by (simp add: invoke_def)
qed


lemma destructor_fired:
  assumes "destructor t = Inr t'"
  shows "fCmds t' = [] \<and> fUpdatesLst t' = [] \<and>
     fired t' = fired t @ concat (map (\<lambda>cmd. invoke (fCallback cmd) False) (fCmds t)) @
       concat (map (\<lambda>u. invoke (updCallback u) False) (fUpdatesLst t))"
proof -
  define s1 where "s1 = CancelCommands 0 t"
  have s1: "fCmds s1 = []" "fUpdatesLst s1 = fUpdatesLst t"
    "fired s1 = fired t @ concat (map (\<lambda>cmd. invoke (fCallback cmd) False) (fCmds t))"
    by (simp_all add: s1_def CancelCommands_eq)
  from assms obtain fr where l: "CancelUpdates_loop (fUpdatesLst s1) (fired s1) = Inr fr"
    and t': "fCmds t' = fCmds s1" "fUpdatesLst t' = []" "fired t' = fr"
    by (auto simp: destructor_def s1_def [symmetric] CancelUpdates_def split: sum.splits if_splits)
  from CancelUpdates_loop_fired [OF l] s1 t' show ?thesis by simp
qed



section \<open>Reachable states\<close>

lemma scenario_D_state: "run scenario_D init = Inr two_viewers"
  by code_simp

lemma png_run_state: "run png_run init = Inr png_running"
  by code_simp

lemma two_commands_state: "run two_commands init = Inr two_queued"
  by code_simp


lemma mixed_run_state: "run mixed_run init = Inr mixed_before"
  by code_simp

lemma mixed_pass: "CheckDataToSend env_open mixed_before = Inr mixed_after"
  by code_simp

lemma window_shown_state: "run [EvNewDisplay ''browser''] init = Inr window_shown"
  by code_simp

section \<open>The delivered-to-all version\<close>

text \<open>
  C1. The claim: the version the push pass reports in \<open>fSnapshotDelivered\<close> never exceeds
  the smallest version acknowledged by a connected viewer, so in scenario D (one viewer
  confirms 3, the other only 2) it is 2. The loop keeps the largest acknowledged version
  instead: after scenario D the painter reports 3, and the update to version 3 has been
  called back with success although the second viewer confirmed only version 2.
\<close>

theorem scenario_D_reports_largest:
  "map_sum id fSnapshotDelivered (run scenario_D init) = Inr 3 \<and>
   map_sum id fired (run scenario_D init) = Inr [(7, True)] \<and>
   map_sum id (map fDelivered) (map_sum id fWebConn (run scenario_D init)) = Inr [3, 2]"
  by code_simp

section \<open>Single flight\<close>

text \<open>
  C2. After every sequence of calls (command submissions through \<open>DoWhenReady\<close> and
  \<open>AddPanel\<close>, updates, push passes, replies, disconnects with their cancellations) at most
  one queued command is running, and a running command is the queue head.
\<close>

theorem single_flight_always:
  assumes "run evs init = Inr s"
  shows "length (filter fRunning (fCmds s)) \<le> 1 \<and>
         (\<forall>i < length (fCmds s). fRunning (fCmds s ! i) \<longrightarrow> i = 0)"
proof -
  have "single_flight (fCmds init)" by (simp add: init_def single_flight_def)
  with assms have "single_flight (fCmds s)" by (rule run_single_flight)
  then show ?thesis
    using single_flight_count single_flight_index by blast
qed

theorem single_flight_witness:
  "run two_commands init = Inr two_queued \<and> map fRunning (fCmds two_queued) = [True, False] \<and>
   length (filter fRunning (fCmds two_queued)) \<le> 1"
  using single_flight_always [OF two_commands_state] two_commands_state
  by (simp add: two_queued_def png_cmd_def svg_cmd_def)

section \<open>The update that is already delivered\<close>

text \<open>
  C3. \<open>CanvasUpdated\<close> with a version that is not zero and not newer than the version
  delivered to all calls the callback at once with success and leaves every field of the
  painter as it was: no snapshot is produced, the stored snapshot and its version stay.
\<close>

theorem CanvasUpdated_already_delivered:
  assumes "ver \<noteq> 0" and "ver \<le> fSnapshotDelivered s"
  shows "CanvasUpdated e ver async (Some f) s = Inr (s\<lparr>fired := fired s @ [(f, True)]\<rparr>) \<and>
         CanvasUpdated e ver async None s = Inr s"
  using assms by (auto simp: CanvasUpdated_def invoke_def)

theorem CanvasUpdated_already_delivered_witness:
  "(2 :: version) \<noteq> 0 \<and> 2 \<le> fSnapshotDelivered two_viewers \<and>
   CanvasUpdated env_open 2 False (Some 9) two_viewers =
     Inr (two_viewers\<lparr>fired := [(7, True), (9, True)]\<rparr>)"
proof -
  have v: "(2 :: version) \<noteq> 0" by simp
  have d: "2 \<le> fSnapshotDelivered two_viewers" by (simp add: two_viewers_def)
  from CanvasUpdated_already_delivered [OF v d, of env_open False 9] v d show ?thesis
    by (simp add: two_viewers_def)
qed

section \<open>Rejected replies\<close>

text \<open>
  C4. The claim: a reply that is rejected leaves the command queue entirely unchanged, no
  flag changes. The push pass that ends \<open>ProcessData\<close> still runs: in \<open>stale_run\<close> the head
  waits, not running; a reply arrives for it, is rejected with an error, and the same call
  sets the head running and sends it.
\<close>

theorem stale_reply_dispatches_head:
  "map_sum id fCmds (run stale_run init) = Inr [waiting_cmd] \<and>
   map_sum id fCmds (run (stale_run @ [EvProcessData env_open 1 ''REPLY:1:aGk='']) init) =
     Inr [png_cmd] \<and>
   map_sum id errors (run (stale_run @ [EvProcessData env_open 1 ''REPLY:1:aGk='']) init) =
     Inr [''Front command is not running when get reply''] \<and>
   map_sum id sent (run (stale_run @ [EvProcessData env_open 1 ''REPLY:1:aGk='']) init) =
     Inr [(1, ''CMD:1:PNG'')]"
  by code_simp

text \<open>
  C4, as the code has it. In every painter a run can reach, a \<open>REPLY:\<close> message of a
  registered connection, with the queue empty, the head not running, or another id than
  the head's: \<open>ProcessData\<close> logs one error, invokes no callback, pops no command and
  releases none, and the queue is as before, unless the head was not running and the
  concluding push pass dispatched it. With an empty queue or a running head the queue is
  unchanged.
\<close>

theorem rejected_reply:
  assumes "run evs init = Inr s"
    and "find_conn connid (fWebConn s) = Some i"
    and "starts_with ''REPLY:'' arg"
    and "fCmds s = [] \<or> fRunning (hd (fCmds s)) = False \<or> fId (hd (fCmds s)) \<noteq> reply_ident arg"
  shows "\<exists>s'. ProcessData e connid arg s = Inr s' \<and> (\<exists>msg. errors s' = errors s @ [msg]) \<and>
     fired s' = fired s \<and> released s' = released s \<and> fUpdatesLst s' = fUpdatesLst s \<and>
     (fCmds s' = fCmds s \<or>
      (fCmds s \<noteq> [] \<and> fRunning (hd (fCmds s)) = False \<and>
       (\<exists>k. fCmds s' = (hd (fCmds s))\<lparr>fRunning := True, cmdConnId := k\<rparr> # tl (fCmds s))))"
proof -
  from reachable_settled [OF assms(1)] find_conn_Some [OF assms(2)]
  have w: "fWindow s" and d: "fSnapshotDelivered s = scan_delivered (fWebConn s) 0"
    by (auto simp: settled_def)
  from assms(4) obtain msg where
    hr: "handle_reply e arg s = Inr (s\<lparr>errors := errors s @ [msg]\<rparr>)"
    using handle_reply_rejected by blast
  define s1 where "s1 = s\<lparr>errors := errors s @ [msg]\<rparr>"
  from assms(3) have arg: "arg \<noteq> ''CONN_READY''"
    by (auto simp: starts_with_def)
  have hm: "handle_msg e i connid arg s = Inr (True, s1)"
    using handle_msg_reply [OF assms(3)] hr by (simp add: s1_def)
  have pd: "ProcessData e connid arg s = CheckDataToSend e s1"
    using arg assms(2) hm by (simp add: ProcessData_def)
  have "fWebConn s1 \<noteq> []" "fWindow s1" "fSnapshotDelivered s1 = scan_delivered (fWebConn s1) 0"
    using w d find_conn_Some [OF assms(2)] by (simp_all add: s1_def)
  then obtain s' where c: "CheckDataToSend e s1 = Inr s'" and f: "fired s' = fired s1"
    "fUpdatesLst s' = fUpdatesLst s1" "errors s' = errors s1" "released s' = released s1"
    using CheckDataToSend_settled by blast
  from CheckDataToSend_queue [OF c] pd c f show ?thesis
    by (simp add: s1_def)
qed

theorem rejected_reply_witness:
  "run png_run init = Inr png_running \<and> find_conn 1 (fWebConn png_running) = Some 0 \<and>
   starts_with ''REPLY:'' ''REPLY:2:aGk='' \<and>
   fId (hd (fCmds png_running)) \<noteq> reply_ident ''REPLY:2:aGk='' \<and>
   map_sum id fCmds (ProcessData env_open 1 ''REPLY:2:aGk='' png_running) = Inr [png_cmd] \<and>
   map_sum id fired (ProcessData env_open 1 ''REPLY:2:aGk='' png_running) = Inr [] \<and>
   map_sum id errors (ProcessData env_open 1 ''REPLY:2:aGk='' png_running) =
     Inr [''Mismatch with front command and ID in REPLY'']"
proof -
  have a: "find_conn 1 (fWebConn png_running) = Some 0" by (simp add: png_running_def)
  have b: "starts_with ''REPLY:'' ''REPLY:2:aGk=''" by (simp add: starts_with_def)
  have c: "fId (hd (fCmds png_running)) \<noteq> reply_ident ''REPLY:2:aGk=''"
    by (simp add: png_running_def png_cmd_def reply_ident_def c_str_def find_char_def)
  then have c': "fCmds png_running = [] \<or> fRunning (hd (fCmds png_running)) = False \<or>
      fId (hd (fCmds png_running)) \<noteq> reply_ident ''REPLY:2:aGk=''" by simp
  have r: "ProcessData env_open 1 ''REPLY:2:aGk='' png_running =
      Inr (png_running\<lparr>errors := [''Mismatch with front command and ID in REPLY'']\<rparr>)"
    by code_simp
  from rejected_reply [OF png_run_state a b c', of env_open] png_run_state a b c r show ?thesis
    by (simp add: png_running_def)
qed

section \<open>Every callback fires once\<close>




section \<open>All viewers gone\<close>

text \<open>
  C6. The claim: once a viewer has existed and no connection is left, every pending update
  is completed with failure. The push pass cancels the updates only when
  \<open>fSnapshotDelivered\<close> is not zero: in \<open>lost_run\<close> the only viewer leaves before it confirms
  a version, and the update to version 5 stays in the list with its callback not invoked.
\<close>

theorem lost_update_left_pending:
  "map_sum id fHadWebConn (run lost_run init) = Inr True \<and>
   map_sum id fWebConn (run lost_run init) = Inr [] \<and>
   map_sum id fUpdatesLst (run lost_run init) = Inr [\<lparr>fVersion = 5, updCallback = Some 7\<rparr>] \<and>
   map_sum id fired (run lost_run init) = Inr []"
  by code_simp

section \<open>The priority of the push pass\<close>

text \<open>
  C7. The claim: on a push pass a connection that can be sent to gets the payload chosen
  by priority, and with a menu request pending (and no command to dispatch) that is the
  menu payload. For an id the canvas has no drawable for it is nothing: after \<open>ghost_run\<close>
  the request of the first viewer is pending; the next push pass, with both viewers able
  to receive, clears the request and sends no payload.
\<close>

theorem menu_request_without_drawable:
  "map_sum id (map fGetMenu) (map_sum id fWebConn (run ghost_run init)) = Inr [''ghost'', []] \<and>
   map_sum id sent (run ghost_run init) = Inr [(1, ''SNAP:3:{}''), (2, ''SNAP:3:{}'')] \<and>
   map_sum id (map fGetMenu)
     (map_sum id fWebConn (run (ghost_run @ [EvProcessData env_open 2 ''READY'']) init)) =
     Inr [[], []] \<and>
   map_sum id sent (run (ghost_run @ [EvProcessData env_open 2 ''READY'']) init) =
     Inr [(1, ''SNAP:3:{}''), (2, ''SNAP:3:{}'')]"
  by code_simp

text \<open>
  C7, as the code has it. One push pass over any number of connections. The registry keeps
  its length, and the payloads sent are the concatenation, in the order of the registry, of
  one list for each connection, empty or of one payload. For the connection at position
  \<open>i\<close>: if it cannot be sent to, its record is unchanged and nothing is sent. Otherwise, if
  it takes the command (it has drawn, the queue head is not running and is bound to 0 or
  to it, and no earlier connection took the head in this pass), the payload is the command
  and the head is left running and bound to it. Otherwise, if a menu request is pending, the
  request is cleared and the payload is the menu when the canvas has a drawable for the id,
  and nothing when it has none. Otherwise, if the sent version differs from the snapshot
  version, the payload is the snapshot and the sent version becomes the snapshot version.
  Otherwise nothing is sent and the record is unchanged. When no connection takes the
  command the queue is unchanged. Every payload is a C string: it ends at the first NUL.
\<close>

theorem push_pass_priority:
  assumes "CheckDataToSend e s = Inr s'"
  shows "\<exists>ps. length ps = length (fWebConn s) \<and> length (fWebConn s') = length (fWebConn s) \<and>
     sent s' = sent s @ concat ps \<and>
     (\<forall>i < length (fWebConn s).
        (if CanSend e (fConnId (fWebConn s ! i)) = False
         then fWebConn s' ! i = fWebConn s ! i \<and> ps ! i = []
         else if takes_command e (fCmds s) (fWebConn s) i
         then fWebConn s' ! i = fWebConn s ! i \<and>
              ps ! i = [(fConnId (fWebConn s ! i),
                         c_str (''CMD:'' @ fId (hd (fCmds s)) @ '':'' @ fName (hd (fCmds s))))] \<and>
              fCmds s' = (hd (fCmds s))\<lparr>fRunning := True, cmdConnId := fConnId (fWebConn s ! i)\<rparr> #
                           tl (fCmds s)
         else if fGetMenu (fWebConn s ! i) \<noteq> []
         then fWebConn s' ! i = (fWebConn s ! i)\<lparr>fGetMenu := []\<rparr> \<and>
              ps ! i = (case FindDrawable e (fGetMenu (fWebConn s ! i)) of
                          None \<Rightarrow> []
                        | Some d \<Rightarrow> [(fConnId (fWebConn s ! i),
                            c_str (''MENU:'' @ fGetMenu (fWebConn s ! i) @ '':'' @ MenuJSON e d))])
         else if fSend (fWebConn s ! i) \<noteq> fSnapshotVersion s
         then fWebConn s' ! i = (fWebConn s ! i)\<lparr>fSend := fSnapshotVersion s\<rparr> \<and>
              ps ! i = [(fConnId (fWebConn s ! i),
                         c_str (''SNAP:'' @ to_string (unat (fSnapshotVersion s)) @ '':'' @
                                fSnapshot s))]
         else fWebConn s' ! i = fWebConn s ! i \<and> ps ! i = [])) \<and>
     ((\<forall>c \<in> set (fWebConn s). wants_command e (fCmds s) c = False) \<longrightarrow> fCmds s' = fCmds s)"
proof -
  define L where "L = send_loop e (fWebConn s) [] 0 s"
  have sent: "sent s' = sent (snd (snd L))" and conns: "fWebConn s' = fst L"
    and cmds: "fCmds s' = fCmds (snd (snd L))"
    unfolding L_def using assms
    by (rule CheckDataToSend_sent, rule CheckDataToSend_conns, rule CheckDataToSend_cmds)
  obtain cs' ps where l: "fst L = [] @ cs'" "length cs' = length (fWebConn s)"
    "length ps = length (fWebConn s)" "sent (snd (snd L)) = sent s @ concat ps"
    and each: "\<forall>i < length (fWebConn s).
       (cs' ! i, ps ! i) = outcome e s (takes_command e (fCmds s) (fWebConn s) i) (fWebConn s ! i)"
    and queue: "\<forall>i < length (fWebConn s). takes_command e (fCmds s) (fWebConn s) i \<longrightarrow>
        fCmds (snd (snd L)) =
          (hd (fCmds s))\<lparr>fRunning := True, cmdConnId := fConnId (fWebConn s ! i)\<rparr> # tl (fCmds s)"
    and idle: "(\<forall>c \<in> set (fWebConn s). wants_command e (fCmds s) c = False) \<longrightarrow>
        fCmds (snd (snd L)) = fCmds s"
    unfolding L_def using send_loop_outcome [of e "fWebConn s" "[]" 0 s] by blast
  have c: "fWebConn s' = cs'" using l(1) conns by simp
  have "\<forall>i < length (fWebConn s).
        (if CanSend e (fConnId (fWebConn s ! i)) = False
         then fWebConn s' ! i = fWebConn s ! i \<and> ps ! i = []
         else if takes_command e (fCmds s) (fWebConn s) i
         then fWebConn s' ! i = fWebConn s ! i \<and>
              ps ! i = [(fConnId (fWebConn s ! i),
                         c_str (''CMD:'' @ fId (hd (fCmds s)) @ '':'' @ fName (hd (fCmds s))))] \<and>
              fCmds s' = (hd (fCmds s))\<lparr>fRunning := True, cmdConnId := fConnId (fWebConn s ! i)\<rparr> #
                           tl (fCmds s)
         else if fGetMenu (fWebConn s ! i) \<noteq> []
         then fWebConn s' ! i = (fWebConn s ! i)\<lparr>fGetMenu := []\<rparr> \<and>
              ps ! i = (case FindDrawable e (fGetMenu (fWebConn s ! i)) of
                          None \<Rightarrow> []
                        | Some d \<Rightarrow> [(fConnId (fWebConn s ! i),
                            c_str (''MENU:'' @ fGetMenu (fWebConn s ! i) @ '':'' @ MenuJSON e d))])
         else if fSend (fWebConn s ! i) \<noteq> fSnapshotVersion s
         then fWebConn s' ! i = (fWebConn s ! i)\<lparr>fSend := fSnapshotVersion s\<rparr> \<and>
              ps ! i = [(fConnId (fWebConn s ! i),
                         c_str (''SNAP:'' @ to_string (unat (fSnapshotVersion s)) @ '':'' @
                                fSnapshot s))]
         else fWebConn s' ! i = fWebConn s ! i \<and> ps ! i = [])"
  proof (intro allI impI)
    fix i assume i: "i < length (fWebConn s)"
    from each i have o: "(cs' ! i, ps ! i) =
        outcome e s (takes_command e (fCmds s) (fWebConn s) i) (fWebConn s ! i)"
      by simp
    from queue i have q: "takes_command e (fCmds s) (fWebConn s) i \<longrightarrow>
        fCmds s' =
          (hd (fCmds s))\<lparr>fRunning := True, cmdConnId := fConnId (fWebConn s ! i)\<rparr> # tl (fCmds s)"
      by (simp add: cmds)
    from o q show "(if CanSend e (fConnId (fWebConn s ! i)) = False
         then fWebConn s' ! i = fWebConn s ! i \<and> ps ! i = []
         else if takes_command e (fCmds s) (fWebConn s) i
         then fWebConn s' ! i = fWebConn s ! i \<and>
              ps ! i = [(fConnId (fWebConn s ! i),
                         c_str (''CMD:'' @ fId (hd (fCmds s)) @ '':'' @ fName (hd (fCmds s))))] \<and>
              fCmds s' = (hd (fCmds s))\<lparr>fRunning := True, cmdConnId := fConnId (fWebConn s ! i)\<rparr> #
                           tl (fCmds s)
         else if fGetMenu (fWebConn s ! i) \<noteq> []
         then fWebConn s' ! i = (fWebConn s ! i)\<lparr>fGetMenu := []\<rparr> \<and>
              ps ! i = (case FindDrawable e (fGetMenu (fWebConn s ! i)) of
                          None \<Rightarrow> []
                        | Some d \<Rightarrow> [(fConnId (fWebConn s ! i),
                            c_str (''MENU:'' @ fGetMenu (fWebConn s ! i) @ '':'' @ MenuJSON e d))])
         else if fSend (fWebConn s ! i) \<noteq> fSnapshotVersion s
         then fWebConn s' ! i = (fWebConn s ! i)\<lparr>fSend := fSnapshotVersion s\<rparr> \<and>
              ps ! i = [(fConnId (fWebConn s ! i),
                         c_str (''SNAP:'' @ to_string (unat (fSnapshotVersion s)) @ '':'' @
                                fSnapshot s))]
         else fWebConn s' ! i = fWebConn s ! i \<and> ps ! i = [])"
      unfolding c outcome_def by (simp split: if_splits)
  qed
  moreover have "length ps = length (fWebConn s) \<and> length (fWebConn s') = length (fWebConn s) \<and>
     sent s' = sent s @ concat ps"
    using l c sent by simp
  moreover have "(\<forall>c \<in> set (fWebConn s). wants_command e (fCmds s) c = False) \<longrightarrow>
      fCmds s' = fCmds s"
    using idle cmds by simp
  ultimately show ?thesis by blast
qed

theorem push_pass_priority_witness:
  "run mixed_run init = Inr mixed_before \<and>
   CheckDataToSend env_open mixed_before = Inr mixed_after \<and>
   takes_command env_open (fCmds mixed_before) (fWebConn mixed_before) 1 \<and>
   map fGetMenu (fWebConn mixed_after) = [[], [], []] \<and>
   map fSend (fWebConn mixed_after) = [0, 0, 4] \<and>
   map fRunning (fCmds mixed_after) = [True] \<and>
   sent mixed_after =
     sent mixed_before @ [(1, ''MENU:hist:[]''), (2, ''CMD:1:PNG''), (3, ''SNAP:4:{}'')]"
proof -
  have t: "takes_command env_open (fCmds mixed_before) (fWebConn mixed_before) 1"
    by (simp add: takes_command_def wants_command_def head_eligible_def mixed_before_def
          env_open_def)
  from push_pass_priority [OF mixed_pass] mixed_run_state mixed_pass t show ?thesis
    by (simp add: mixed_after_def mixed_before_def)
qed

section \<open>An update with no viewer\<close>

text \<open>
  C8. The claim: an update submitted with a callback while no viewer exists and none ever
  connected never stays unresolved. With the window shown it does: after \<open>nobody_run\<close> the
  update is pending, its callback has not been invoked, and the wait predicate answers 0.
\<close>

theorem no_viewer_update_pending:
  "map_sum id fHadWebConn (run nobody_run init) = Inr False \<and>
   map_sum id fWebConn (run nobody_run init) = Inr [] \<and>
   map_sum id fUpdatesLst (run nobody_run init) = Inr [\<lparr>fVersion = 5, updCallback = Some 7\<rparr>] \<and>
   map_sum id fired (run nobody_run init) = Inr [] \<and>
   map_sum id (CheckDeliveredVersion 5) (run nobody_run init) = Inr 0"
  by code_simp

text \<open>
  C8, as the code has it. In a painter that no viewer has ever connected to there is no
  connection, and an update to a version that is not zero calls the callback with failure
  at once when the painter has no window or the window is not shown. With the window shown
  the callback is not invoked and the update joins the pending list; and after any further
  calls among which no viewer connects (no \<open>CONN_READY\<close> message) the update is still
  pending, the wait predicate still answers 0, the only invocations since the submission
  are failures of callbacks handed in by those later calls, and the destructor succeeds,
  empties the pending list and invokes the callback of the update with failure.
\<close>

theorem update_without_viewers:
  assumes "run evs init = Inr s" and "fHadWebConn s = False" and "ver \<noteq> 0"
  shows "fWebConn s = [] \<and>
     (\<exists>s'. CanvasUpdated e ver async (Some f) s = Inr s' \<and>
        (if fWindow s \<and> IsShown e
         then fired s' = fired s \<and>
              fUpdatesLst s' = fUpdatesLst s @ [\<lparr>fVersion = ver, updCallback = Some f\<rparr>] \<and>
              (\<forall>later s''.
                 list_all (\<lambda>ev. connects ev = False) later \<and> run later s' = Inr s'' \<longrightarrow>
                   CheckDeliveredVersion ver s'' = 0 \<and>
                   (\<exists>more extra.
                      fUpdatesLst s'' =
                        fUpdatesLst s @ [\<lparr>fVersion = ver, updCallback = Some f\<rparr>] @ more \<and>
                      fired s'' = fired s @ extra \<and>
                      (\<forall>x \<in> set extra. snd x = False \<and> fst x \<in># (\<Sum>ev\<leftarrow>later. handed ev))) \<and>
                   (\<exists>s3 before after. destructor s'' = Inr s3 \<and> fUpdatesLst s3 = [] \<and>
                      fired s3 = fired s'' @ before @ [(f, False)] @ after))
         else fired s' = fired s @ [(f, False)] \<and> fUpdatesLst s' = fUpdatesLst s))"
proof -
  from reachable_settled [OF assms(1)] assms(2)
  have c: "fWebConn s = []" and d: "fSnapshotDelivered s = 0"
    by (auto simp: settled_def)
  have nv: "no_viewer s" using c d assms(2) by (simp add: no_viewer_def)
  have armed: "updates_armed s"
    using run_accounted [OF assms(1)] by (simp add: updates_armed_def init_def)
  define s2 where "s2 = (snd (CreateSnapshot e (s\<lparr>fSnapshotVersion := ver\<rparr>)))
      \<lparr>fSnapshot := fst (CreateSnapshot e (s\<lparr>fSnapshotVersion := ver\<rparr>))\<rparr>"
  have s2: "fWebConn s2 = []" "fSnapshotDelivered s2 = 0" "fUpdatesLst s2 = fUpdatesLst s"
    "fired s2 = fired s" "fWindow s2 = fWindow s"
    using c d by (simp_all add: s2_def)
  then have pass: "CheckDataToSend e s2 = Inr s2"
    by (simp add: CheckDataToSend_no_viewer)
  define s' where "s' = (if fWindow s \<and> IsShown e
       then s2\<lparr>fUpdatesLst := fUpdatesLst s2 @ [\<lparr>fVersion = ver, updCallback = Some f\<rparr>]\<rparr>
       else s2\<lparr>fired := fired s2 @ invoke (Some f) False\<rparr>)"
  have call: "CanvasUpdated e ver async (Some f) s = Inr s'"
    unfolding CanvasUpdated_def Let_def s2_def [symmetric] s'_def using d pass s2(5)
    by simp
  have hidden: "\<not> (fWindow s \<and> IsShown e) \<Longrightarrow>
      fired s' = fired s @ [(f, False)] \<and> fUpdatesLst s' = fUpdatesLst s"
    using s2 by (auto simp: s'_def invoke_def)
  have shown: "fired s' = fired s \<and>
      fUpdatesLst s' = fUpdatesLst s @ [\<lparr>fVersion = ver, updCallback = Some f\<rparr>] \<and>
      (\<forall>later s''.
         list_all (\<lambda>ev. connects ev = False) later \<and> run later s' = Inr s'' \<longrightarrow>
           CheckDeliveredVersion ver s'' = 0 \<and>
           (\<exists>more extra.
              fUpdatesLst s'' =
                fUpdatesLst s @ [\<lparr>fVersion = ver, updCallback = Some f\<rparr>] @ more \<and>
              fired s'' = fired s @ extra \<and>
              (\<forall>x \<in> set extra. snd x = False \<and> fst x \<in># (\<Sum>ev\<leftarrow>later. handed ev))) \<and>
           (\<exists>s3 before after. destructor s'' = Inr s3 \<and> fUpdatesLst s3 = [] \<and>
              fired s3 = fired s'' @ before @ [(f, False)] @ after))"
    if w: "fWindow s \<and> IsShown e"
  proof -
    have f': "fired s' = fired s"
      and u': "fUpdatesLst s' = fUpdatesLst s @ [\<lparr>fVersion = ver, updCallback = Some f\<rparr>]"
      using w s2 by (simp_all add: s'_def)
    have nv': "no_viewer s'"
      using CanvasUpdated_quiet [OF nv call] by simp
    have armed': "updates_armed s'"
      using CanvasUpdated_accounted [OF call] armed by simp
    have "CheckDeliveredVersion ver s'' = 0 \<and>
           (\<exists>more extra.
              fUpdatesLst s'' =
                fUpdatesLst s @ [\<lparr>fVersion = ver, updCallback = Some f\<rparr>] @ more \<and>
              fired s'' = fired s @ extra \<and>
              (\<forall>x \<in> set extra. snd x = False \<and> fst x \<in># (\<Sum>ev\<leftarrow>later. handed ev))) \<and>
           (\<exists>s3 before after. destructor s'' = Inr s3 \<and> fUpdatesLst s3 = [] \<and>
              fired s3 = fired s'' @ before @ [(f, False)] @ after)"
      if q: "list_all (\<lambda>ev. connects ev = False) later" and r: "run later s' = Inr s''"
      for later s''
    proof -
      from quiet_run [OF nv' q r] obtain more extra where
        a: "no_viewer s''" "fUpdatesLst s'' = fUpdatesLst s' @ more" "fired s'' = fired s' @ extra"
           "\<forall>x \<in> set extra. snd x = False \<and> fst x \<in># (\<Sum>ev\<leftarrow>later. handed ev)"
        by blast
      from a(1) assms(3) have w0: "CheckDeliveredVersion ver s'' = 0"
        by (simp add: CheckDeliveredVersion_def no_viewer_def word_le_0_iff)
      from run_accounted [OF r] armed' have "updates_armed s''" by simp
      from destructor_accounted [OF this] obtain s3 where d3: "destructor s'' = Inr s3"
        by blast
      from destructor_fired [OF d3] a(2) u'
      have "fUpdatesLst s3 = [] \<and> fired s3 = fired s'' @
          (concat (map (\<lambda>cmd. invoke (fCallback cmd) False) (fCmds s'')) @
           concat (map (\<lambda>u. invoke (updCallback u) False) (fUpdatesLst s))) @ [(f, False)] @
          concat (map (\<lambda>u. invoke (updCallback u) False) more)"
        by (simp add: invoke_def)
      with d3 have "\<exists>s3 before after. destructor s'' = Inr s3 \<and> fUpdatesLst s3 = [] \<and>
              fired s3 = fired s'' @ before @ [(f, False)] @ after"
        by blast
      moreover from a(2,3,4) u' f' have "\<exists>more extra.
              fUpdatesLst s'' =
                fUpdatesLst s @ [\<lparr>fVersion = ver, updCallback = Some f\<rparr>] @ more \<and>
              fired s'' = fired s @ extra \<and>
              (\<forall>x \<in> set extra. snd x = False \<and> fst x \<in># (\<Sum>ev\<leftarrow>later. handed ev))"
        by auto
      ultimately show ?thesis using w0 by blast
    qed
    with f' u' show ?thesis by blast
  qed
  show ?thesis
  proof (cases "fWindow s \<and> IsShown e")
    case True
    from shown [OF True] True c call show ?thesis by simp
  next
    case False
    from hidden [OF False] False c call show ?thesis by simp
  qed
qed

theorem update_without_viewers_witness:
  "run [EvNewDisplay ''browser''] init = Inr window_shown \<and>
   fHadWebConn window_shown = False \<and> (5 :: version) \<noteq> 0 \<and>
   fWindow window_shown \<and> IsShown env_open \<and>
   CanvasUpdated env_open 5 True (Some 7) window_shown = Inr update_pending \<and>
   fired update_pending = [] \<and>
   fUpdatesLst update_pending = [\<lparr>fVersion = 5, updCallback = Some 7\<rparr>] \<and>
   list_all (\<lambda>ev. connects ev = False) quiet_later \<and>
   map_sum id fUpdatesLst (run quiet_later update_pending) =
     Inr [\<lparr>fVersion = 5, updCallback = Some 7\<rparr>] \<and>
   map_sum id fired (run quiet_later update_pending) = Inr [] \<and>
   map_sum id (CheckDeliveredVersion 5) (run quiet_later update_pending) = Inr 0 \<and>
   map_sum id fired (case run quiet_later update_pending of
                       Inl err \<Rightarrow> Inl err | Inr s \<Rightarrow> destructor s) =
     Inr [(4, False), (7, False)] \<and>
   IsShown env_hidden = False \<and>
   map_sum id fired (CanvasUpdated env_hidden 5 True (Some 7) window_shown) = Inr [(7, False)] \<and>
   map_sum id fUpdatesLst (CanvasUpdated env_hidden 5 True (Some 7) window_shown) = Inr []"
proof -
  have h: "fHadWebConn window_shown = False" by (simp add: window_shown_def init_def)
  have v: "(5 :: version) \<noteq> 0" by simp
  have w: "fWindow window_shown \<and> IsShown env_open \<and> IsShown env_hidden = False"
    by (simp add: window_shown_def env_open_def env_hidden_def)
  have p: "CanvasUpdated env_open 5 True (Some 7) window_shown = Inr update_pending"
    by code_simp
  have q: "list_all (\<lambda>ev. connects ev = False) quiet_later"
    by (simp add: quiet_later_def)
  have l: "map_sum id fUpdatesLst (run quiet_later update_pending) =
       Inr [\<lparr>fVersion = 5, updCallback = Some 7\<rparr>] \<and>
     map_sum id fired (run quiet_later update_pending) = Inr [] \<and>
     map_sum id (CheckDeliveredVersion 5) (run quiet_later update_pending) = Inr 0 \<and>
     map_sum id fired (case run quiet_later update_pending of
                       Inl err \<Rightarrow> Inl err | Inr s \<Rightarrow> destructor s) =
       Inr [(4, False), (7, False)]"
    by code_simp
  have u: "fired update_pending = [] \<and>
     fUpdatesLst update_pending = [\<lparr>fVersion = 5, updCallback = Some 7\<rparr>]"
    by (simp add: update_pending_def)
  from update_without_viewers [OF window_shown_state h v, of env_hidden True 7]
    update_without_viewers [OF window_shown_state h v, of env_open True 7]
    window_shown_state h v w p q l u
  show ?thesis
    by auto
qed

section \<open>The reply to the running command\<close>

text \<open>
  C9. The claim: for an image verb a reply that is not empty is decoded and written to the
  path in the command's argument, and the result is success. The source opens a
  \<open>std::ofstream\<close> and never tests it: in scenario C with an output file that cannot be
  opened the reply is answered with success, the callback is invoked with true, and nothing
  has been written.
\<close>

theorem unopened_file_reported_written:
  "CanOpen env_readonly ''/tmp/out.png'' = False \<and>
   map_sum id fCmds (run unopened_run init) = Inr [] \<and>
   map_sum id fired (run unopened_run init) = Inr [(4, True)] \<and>
   map_sum id (map fResult) (map_sum id released (run unopened_run init)) = Inr [True] \<and>
   map_sum id files (run unopened_run init) = Inr []"
  by code_simp

text \<open>
  C9, as the code has it. \<open>FrontCommandReplied\<close> on a queue with head \<open>cmd\<close>: the head is
  popped, marked ready with the result, and its callback is invoked with the result. For the
  image verbs SVG, PNG and JPEG the result is failure exactly for the empty reply; a reply
  that is not empty is decoded (up to its first NUL) and written to the file the command's
  argument names as a C string when that file can be opened, and nothing is written when it
  cannot, the result being success either way. For a command whose name starts with
  \<open>ADDPANEL:\<close> the result is true exactly for the reply \<open>true\<close>. For any other name the
  result is failure.
\<close>

theorem FrontCommandReplied_result:
  assumes "fCmds s = cmd # rest"
  shows "\<exists>s' result. FrontCommandReplied e reply s = Inr s' \<and> fCmds s' = rest \<and>
     released s' = released s @ [cmd\<lparr>fReady := True, fResult := result, fCallback := None\<rparr>] \<and>
     fired s' = fired s @ invoke (fCallback cmd) result \<and>
     (if fName cmd \<in> {''SVG'', ''PNG'', ''JPEG''}
      then (result = False \<longleftrightarrow> reply = []) \<and>
           files s' = files s @
             (if reply = [] \<or> CanOpen e (c_str (fArg cmd)) = False then []
              else [(c_str (fArg cmd), Decode e (c_str reply))])
      else if starts_with ''ADDPANEL:'' (fName cmd)
      then (result \<longleftrightarrow> reply = ''true'') \<and> files s' = files s
      else result = False \<and> files s' = files s)"
  using assms by (auto simp: FrontCommandReplied_def Let_def starts_with_def written_def)

theorem FrontCommandReplied_result_witness:
  "fCmds png_running = [png_cmd] \<and>
   map_sum id fCmds (FrontCommandReplied env_open ''aGk='' png_running) = Inr [] \<and>
   map_sum id fired (FrontCommandReplied env_open ''aGk='' png_running) = Inr [(4, True)] \<and>
   map_sum id files (FrontCommandReplied env_open ''aGk='' png_running) =
     Inr [(''/tmp/out.png'', ''aGk='')] \<and>
   map_sum id fired (FrontCommandReplied env_open [] png_running) = Inr [(4, False)] \<and>
   map_sum id files (FrontCommandReplied env_open [] png_running) = Inr [] \<and>
   map_sum id fired (FrontCommandReplied env_readonly ''aGk='' png_running) = Inr [(4, True)] \<and>
   map_sum id files (FrontCommandReplied env_readonly ''aGk='' png_running) = Inr []"
proof -
  have q: "fCmds png_running = [png_cmd]" by (simp add: png_running_def)
  have v: "map_sum id fCmds (FrontCommandReplied env_open ''aGk='' png_running) = Inr [] \<and>
   map_sum id fired (FrontCommandReplied env_open ''aGk='' png_running) = Inr [(4, True)] \<and>
   map_sum id files (FrontCommandReplied env_open ''aGk='' png_running) =
     Inr [(''/tmp/out.png'', ''aGk='')] \<and>
   map_sum id fired (FrontCommandReplied env_open [] png_running) = Inr [(4, False)] \<and>
   map_sum id files (FrontCommandReplied env_open [] png_running) = Inr [] \<and>
   map_sum id fired (FrontCommandReplied env_readonly ''aGk='' png_running) = Inr [(4, True)] \<and>
   map_sum id files (FrontCommandReplied env_readonly ''aGk='' png_running) = Inr []"
    by code_simp
  from FrontCommandReplied_result [OF q, of env_open "''aGk=''"] q v show ?thesis
    by simp
qed

section \<open>Messages of unknown connections\<close>

text \<open>
  C10. A message other than \<open>CONN_READY\<close> from a connection id with no record returns at
  once: the painter is unchanged (registry, versions, queue, snapshot, logs), no callback
  fires and no push pass runs.
\<close>

theorem ProcessData_unknown_connection:
  assumes "arg \<noteq> ''CONN_READY''" and "connid \<notin> fConnId ` set (fWebConn s)"
  shows "ProcessData e connid arg s = Inr s"
  using assms find_conn_None [of connid "fWebConn s"] by (simp add: ProcessData_def)

theorem ProcessData_unknown_connection_witness:
  "''SNAPDONE:9'' \<noteq> ''CONN_READY'' \<and> (5 :: connid) \<notin> fConnId ` set (fWebConn two_viewers) \<and>
   ProcessData env_open 5 ''SNAPDONE:9'' two_viewers = Inr two_viewers"
proof -
  have a: "''SNAPDONE:9'' \<noteq> ''CONN_READY''" by simp
  have c: "(5 :: connid) \<notin> fConnId ` set (fWebConn two_viewers)" by (simp add: two_viewers_def)
  from ProcessData_unknown_connection [OF a c] a c show ?thesis by simp
qed

end
